theory Spec2Isabelle
  imports Complex_Main "HOL-Library.Sublist" "HOL-Library.Multiset"
begin

section \<open>Data model of \<^verbatim>\<open>corenlp/models.py\<close>\<close>

text \<open>
  The four Django models are records, one field per column. A field keeps the name it has
  in the source, prefixed by its model (several models share \<^verbatim>\<open>id\<close>, \<^verbatim>\<open>corpus_id\<close>,
  \<^verbatim>\<open>gloss\<close>). A \<^verbatim>\<open>ForeignKey\<close> column holds the primary key of the row it refers to; a
  column declared \<^verbatim>\<open>null=True\<close> is an \<open>option\<close>. \<^verbatim>\<open>FloatField\<close> columns are carried as
  \<open>real\<close>: \<^verbatim>\<open>annotate\<close> never computes with them.

  The model is of a deployment where every model has a table of its own
  (\<^verbatim>\<open>CORENLP_USE_TABLENAME_PREFIX\<close> set): without the prefix, the \<^verbatim>\<open>Meta\<close> of \<^verbatim>\<open>Sentence\<close>
  names the table \<^verbatim>\<open>document\<close>, the one of \<^verbatim>\<open>Document\<close>.
\<close>

record Document =
  Document_id :: string
  Document_corpus_id :: string
  Document_source :: string
  Document_timestamp :: "int option"
  Document_title :: string
  Document_gloss :: string
  Document_metadata :: string

text \<open>
  \<^verbatim>\<open>Sentence\<close> declares no primary key, so Django adds the auto-incremented \<^verbatim>\<open>id\<close>: a row of
  the table is a pair of that key and the fields below, and an object built by
  \<^verbatim>\<open>Sentence(...)\<close> that is not saved yet is the fields alone.
\<close>

record Sentence =
  Sentence_corpus_id :: string
  Sentence_doc :: string
  Sentence_sentence_index :: int
  Sentence_words :: "string list"
  Sentence_lemmas :: "string list"
  Sentence_pos_tags :: "string list"
  Sentence_ner_tags :: "string list"
  Sentence_doc_char_begin :: "int list"
  Sentence_doc_char_end :: "int list"
  Sentence_dependencies :: "string option"
  Sentence_gloss :: string
  Sentence_searchable :: string

record Mention =
  Mention_id :: int
  Mention_corpus_id :: string
  Mention_doc :: string
  Mention_sentence :: nat
  Mention_token_begin :: "int list"
  Mention_token_end :: "int list"
  Mention_doc_char_begin :: "int list"
  Mention_doc_char_end :: "int list"
  Mention_doc_canonical_char_begin :: "int list"
  Mention_doc_canonical_char_end :: "int list"
  Mention_ner :: string
  Mention_best_entity :: string
  Mention_best_entity_score :: "real option"
  Mention_unambiguous_link :: bool
  Mention_alt_entity :: string
  Mention_alt_entity_score :: "real option"
  Mention_gloss :: "string option"

record Relation =
  Relation_id :: int
  Relation_corpus_id :: string
  Relation_sentence :: nat
  Relation_entity :: "int option"
  Relation_entity_name :: string
  Relation_entity_gloss :: string
  Relation_slot_value :: "int option"
  Relation_slot_value_name :: string
  Relation_slot_value_gloss :: string
  Relation_relation :: string
  Relation_score :: real

section \<open>The annotation service\<close>

text \<open>
  \<^verbatim>\<open>CoreNLPService\<close> comes from \<^verbatim>\<open>.util\<close>; \<^verbatim>\<open>annotate\<close> reads of its answer the attributes
  below and nothing else. \<open>original_text\<close> is the \<^verbatim>\<open>text\<close> attribute that the comment at
  the \<^verbatim>\<open>gloss\<close> argument says is not used, and \<open>lemmas'\<close> is the attribute \<^verbatim>\<open>lemmas\<close>.
\<close>

record Token =
  character_span :: "int \<times> int"

record AnnotatedSentence =
  sentence_index :: int
  words :: "string list"
  lemmas' :: "string list"
  pos_tags :: "string list"
  ner_tags :: "string list"
  tokens :: "Token list"
  depparse :: "string option"
  clean_text :: string
  original_text :: string

record AnnotatedDocument =
  sentences :: "AnnotatedSentence list"

type_synonym options = "(string \<times> string) list"

section \<open>State, errors and the collaborators of one call\<close>

text \<open>
  The state is the four tables, the sequence that numbers new \<^verbatim>\<open>Sentence\<close> rows, and the
  log of the requests sent to the annotation service (text and options, oldest first).
\<close>

record world =
  Document_table :: "Document list"
  Sentence_table :: "(nat \<times> Sentence) list"
  Mention_table :: "Mention list"
  Relation_table :: "Relation list"
  Sentence_id_seq :: nat
  CoreNLP_calls :: "(string \<times> options) list"

text \<open>The database statements \<^verbatim>\<open>annotate\<close> issues, in the order of the source.\<close>

datatype db_op =
  Exists_before_transaction
| Exists_in_transaction
| Delete_Sentences
| Delete_Mentions
| Bulk_create_Sentences
| Bulk_create_Mentions
| Commit

datatype error = ServiceError string | DatabaseError db_op

text \<open>
  What the collaborators do during one call of \<^verbatim>\<open>annotate\<close>: \<open>service\<close> is the answer of
  \<^verbatim>\<open>CoreNLPService().annotate(text, **kwargs)\<close> (\<open>Inl\<close> when it raises), and \<open>db_fault op\<close>
  says whether the database raises in statement \<open>op\<close> (a constraint violation, a lost
  connection): \<open>Some k\<close> when it does, after \<open>k\<close> of the statement's rows took effect.
\<close>

record env =
  service :: "string \<Rightarrow> options \<Rightarrow> error + AnnotatedDocument"
  db_fault :: "db_op \<Rightarrow> nat option"

type_synonym 'a action = "world \<Rightarrow> (error + 'a) \<times> world"

definition pure :: "'a \<Rightarrow> 'a action" where
  "pure x w = (Inr x, w)"

text \<open>Sequencing: an exception of the first statement skips the rest.\<close>

definition and_then :: "'a action \<Rightarrow> ('a \<Rightarrow> 'b action) \<Rightarrow> 'b action" where
  "and_then m f w = (case m w of (Inl e, w') \<Rightarrow> (Inl e, w') | (Inr x, w') \<Rightarrow> f x w')"

section \<open>The persistence engine\<close>

text \<open>
  \<^verbatim>\<open>with transaction.atomic()\<close>: when the block raises, the tables are put back as they were
  at its entry and the exception goes on to the caller; when it ends, the transaction is
  committed, and a commit that fails rolls back too. The sequence and the log of service
  requests are not part of the transaction.
\<close>

definition rollback :: "world \<Rightarrow> world \<Rightarrow> world" where
  "rollback w0 w = w\<lparr>Document_table := Document_table w0, Sentence_table := Sentence_table w0,
     Mention_table := Mention_table w0, Relation_table := Relation_table w0\<rparr>"

definition atomic :: "env \<Rightarrow> 'a action \<Rightarrow> 'a action" where
  "atomic e body w =
     (case body w of
        (Inl err, w') \<Rightarrow> (Inl err, rollback w w')
      | (Inr x, w') \<Rightarrow>
          (case db_fault e Commit of
             Some k \<Rightarrow> (Inl (DatabaseError Commit), rollback w w')
           | None \<Rightarrow> (Inr x, w')))"

text \<open>\<^verbatim>\<open>Sentence.objects.filter(doc=self)\<close> and \<^verbatim>\<open>Mention.objects.filter(doc=self)\<close>.\<close>

definition Sentence_filter_doc :: "Document \<Rightarrow> world \<Rightarrow> (nat \<times> Sentence) list" where
  "Sentence_filter_doc self w =
     filter (\<lambda>row. Sentence_doc (snd row) = Document_id self) (Sentence_table w)"

definition Mention_filter_doc :: "Document \<Rightarrow> world \<Rightarrow> Mention list" where
  "Mention_filter_doc self w =
     filter (\<lambda>m. Mention_doc m = Document_id self) (Mention_table w)"

text \<open>\<^verbatim>\<open>.exists()\<close> on the first query.\<close>

definition Sentence_exists :: "env \<Rightarrow> db_op \<Rightarrow> Document \<Rightarrow> bool action" where
  "Sentence_exists e op self w =
     (case db_fault e op of
        Some k \<Rightarrow> (Inl (DatabaseError op), w)
      | None \<Rightarrow> (Inr (Sentence_filter_doc self w \<noteq> []), w))"

text \<open>
  \<^verbatim>\<open>.delete()\<close>. No foreign key of the source gives \<^verbatim>\<open>on_delete\<close>, so each one cascades:
  with a \<^verbatim>\<open>Mention\<close> go the \<^verbatim>\<open>Relation\<close> rows whose \<^verbatim>\<open>entity\<close> or \<^verbatim>\<open>slot_value\<close> it is, and
  with a \<^verbatim>\<open>Sentence\<close> go the \<^verbatim>\<open>Mention\<close> and \<^verbatim>\<open>Relation\<close> rows whose \<^verbatim>\<open>sentence\<close> it is.
  The arguments are the primary keys of the rows to delete.
\<close>

definition delete_Mention_rows :: "int list \<Rightarrow> world \<Rightarrow> world" where
  "delete_Mention_rows mids w =
     w\<lparr>Mention_table := filter (\<lambda>m. Mention_id m \<notin> set mids) (Mention_table w),
       Relation_table :=
         filter (\<lambda>r. Relation_entity r \<notin> set (map Some mids)
                    \<and> Relation_slot_value r \<notin> set (map Some mids))
           (Relation_table w)\<rparr>"

definition delete_Sentence_rows :: "nat list \<Rightarrow> world \<Rightarrow> world" where
  "delete_Sentence_rows sids w =
     delete_Mention_rows
       (map Mention_id (filter (\<lambda>m. Mention_sentence m \<in> set sids) (Mention_table w)))
       (w\<lparr>Sentence_table := filter (\<lambda>row. fst row \<notin> set sids) (Sentence_table w),
          Relation_table := filter (\<lambda>r. Relation_sentence r \<notin> set sids) (Relation_table w)\<rparr>)"

definition Sentence_delete :: "env \<Rightarrow> Document \<Rightarrow> unit action" where
  "Sentence_delete e self w =
     (let sids = map fst (Sentence_filter_doc self w)
      in case db_fault e Delete_Sentences of
           Some k \<Rightarrow> (Inl (DatabaseError Delete_Sentences), delete_Sentence_rows (take k sids) w)
         | None \<Rightarrow> (Inr (), delete_Sentence_rows sids w))"

definition Mention_delete :: "env \<Rightarrow> Document \<Rightarrow> unit action" where
  "Mention_delete e self w =
     (let mids = map Mention_id (Mention_filter_doc self w)
      in case db_fault e Delete_Mentions of
           Some k \<Rightarrow> (Inl (DatabaseError Delete_Mentions), delete_Mention_rows (take k mids) w)
         | None \<Rightarrow> (Inr (), delete_Mention_rows mids w))"

text \<open>
  \<^verbatim>\<open>bulk_create\<close>. An empty list returns before the database is reached. Otherwise the
  rows are appended: a \<^verbatim>\<open>Sentence\<close> takes its key from the sequence, a \<^verbatim>\<open>Mention\<close> carries
  its own.
\<close>

definition insert_Sentence_rows :: "Sentence list \<Rightarrow> world \<Rightarrow> world" where
  "insert_Sentence_rows objs w =
     w\<lparr>Sentence_table :=
         Sentence_table w @ zip [Sentence_id_seq w ..< Sentence_id_seq w + length objs] objs,
       Sentence_id_seq := Sentence_id_seq w + length objs\<rparr>"

definition Sentence_bulk_create :: "env \<Rightarrow> Sentence list \<Rightarrow> unit action" where
  "Sentence_bulk_create e objs w =
     (if objs = [] then (Inr (), w)
      else case db_fault e Bulk_create_Sentences of
             Some k \<Rightarrow> (Inl (DatabaseError Bulk_create_Sentences),
                        insert_Sentence_rows (take k objs) w)
           | None \<Rightarrow> (Inr (), insert_Sentence_rows objs w))"

definition Mention_bulk_create :: "env \<Rightarrow> Mention list \<Rightarrow> unit action" where
  "Mention_bulk_create e objs w =
     (if objs = [] then (Inr (), w)
      else case db_fault e Bulk_create_Mentions of
             Some k \<Rightarrow> (Inl (DatabaseError Bulk_create_Mentions),
                        w\<lparr>Mention_table := Mention_table w @ take k objs\<rparr>)
           | None \<Rightarrow> (Inr (), w\<lparr>Mention_table := Mention_table w @ objs\<rparr>))"

text \<open>\<^verbatim>\<open>CoreNLPService().annotate(text, **kwargs)\<close>: the request is logged, then answered.\<close>

definition CoreNLPService_annotate :: "env \<Rightarrow> string \<Rightarrow> options \<Rightarrow> AnnotatedDocument action" where
  "CoreNLPService_annotate e txt kwargs w =
     (service e txt kwargs, w\<lparr>CoreNLP_calls := CoreNLP_calls w @ [(txt, kwargs)]\<rparr>)"

section \<open>\<^verbatim>\<open>Document.annotate\<close>\<close>

text \<open>
  The \<^verbatim>\<open>Sentence(...)\<close> of the list comprehension, for one sentence \<open>s\<close> of the answer.
  \<^verbatim>\<open>searchable\<close> is not given: it takes the default of a field that is not nullable,
  the empty string.
\<close>

definition new_Sentence :: "Document \<Rightarrow> AnnotatedSentence \<Rightarrow> Sentence" where
  "new_Sentence self s =
     \<lparr>Sentence_corpus_id = Document_corpus_id self,
      Sentence_doc = Document_id self,
      Sentence_sentence_index = sentence_index s,
      Sentence_words = words s,
      Sentence_lemmas = lemmas' s,
      Sentence_pos_tags = pos_tags s,
      Sentence_ner_tags = ner_tags s,
      Sentence_doc_char_begin = map (\<lambda>t. fst (character_span t)) (tokens s),
      Sentence_doc_char_end = map (\<lambda>t. snd (character_span t)) (tokens s),
      Sentence_dependencies = depparse s,
      Sentence_gloss = clean_text s,
      Sentence_searchable = []\<rparr>"

text \<open>The block under \<^verbatim>\<open>with transaction.atomic()\<close>.\<close>

definition annotate_block :: "env \<Rightarrow> Document \<Rightarrow> bool \<Rightarrow> options \<Rightarrow> unit action" where
  "annotate_block e self force kwargs =
     and_then (Sentence_exists e Exists_in_transaction self) (\<lambda>ex.
     and_then (if ex \<and> force
               then and_then (Sentence_delete e self) (\<lambda>_. Mention_delete e self)
               else pure ()) (\<lambda>_.
     and_then (CoreNLPService_annotate e (Document_gloss self) kwargs) (\<lambda>annotated_document.
     and_then (Sentence_bulk_create e
                 (map (new_Sentence self) (sentences annotated_document))) (\<lambda>_.
     Mention_bulk_create e []))))"

definition annotate :: "env \<Rightarrow> Document \<Rightarrow> bool \<Rightarrow> options \<Rightarrow> unit action" where
  "annotate e self force kwargs =
     and_then (Sentence_exists e Exists_before_transaction self) (\<lambda>ex.
       if ex \<and> \<not> force then pure ()
       else atomic e (annotate_block e self force kwargs))"

section \<open>What a call that recomputes leaves behind\<close>

text \<open>
  Two abbreviations for the statements of the lemmas below: the state after the two
  \<^verbatim>\<open>delete()\<close> statements of a forced call, and the state after the request to the
  service and the bulk insert of its answer \<open>ad\<close>.
\<close>

definition after_delete :: "Document \<Rightarrow> world \<Rightarrow> world" where
  "after_delete self w =
     (let w1 = delete_Sentence_rows (map fst (Sentence_filter_doc self w)) w
      in delete_Mention_rows (map Mention_id (Mention_filter_doc self w1)) w1)"

definition after_insert :: "Document \<Rightarrow> options \<Rightarrow> AnnotatedDocument \<Rightarrow> world \<Rightarrow> world" where
  "after_insert self kwargs ad w =
     insert_Sentence_rows (map (new_Sentence self) (sentences ad))
       (w\<lparr>CoreNLP_calls := CoreNLP_calls w @ [(Document_gloss self, kwargs)]\<rparr>)"

text \<open>
  The rows that the cascade of a forced call reaches: the keys of the Sentences of the
  document, and the keys of the Mentions that refer to the document or to one of those
  Sentences.
\<close>

definition own_Sentence_keys :: "Document \<Rightarrow> world \<Rightarrow> nat list" where
  "own_Sentence_keys self w =
     map fst (filter (\<lambda>row. Sentence_doc (snd row) = Document_id self) (Sentence_table w))"

definition own_Mention_keys :: "Document \<Rightarrow> world \<Rightarrow> int list" where
  "own_Mention_keys self w =
     map Mention_id
       (filter (\<lambda>m. Mention_doc m = Document_id self
                   \<or> Mention_sentence m \<in> set (own_Sentence_keys self w))
          (Mention_table w))"

text \<open>The constraints of the schema on keys: primary keys are unique, and the sequence of
  \<^verbatim>\<open>Sentence\<close> is ahead of every key in the table.\<close>

definition keys_ok :: "world \<Rightarrow> bool" where
  "keys_ok w \<longleftrightarrow>
     distinct (map fst (Sentence_table w)) \<and>
     distinct (map Mention_id (Mention_table w)) \<and>
     list_all (\<lambda>row. fst row < Sentence_id_seq w) (Sentence_table w)"

section \<open>Example data\<close>

text \<open>
  The document of the example scenario, the answer of the service to it (two sentences),
  and states of the database: one where the document is not annotated yet, one where it
  is (a \<^verbatim>\<open>Sentence\<close> with a \<^verbatim>\<open>Mention\<close> and a \<^verbatim>\<open>Relation\<close>) beside a second document
  with rows of its own.
\<close>

definition doc_obama :: Document where
  "doc_obama =
     \<lparr>Document_id = ''d1'', Document_corpus_id = ''default'', Document_source = ''default'',
      Document_timestamp = None, Document_title = ''Obama'',
      Document_gloss = ''Obama was president. He visited Paris.'',
      Document_metadata = []\<rparr>"

definition sentence_obama :: AnnotatedSentence where
  "sentence_obama =
     \<lparr>sentence_index = 0,
      words = [''Obama'', ''was'', ''president'', ''.''],
      lemmas' = [''Obama'', ''be'', ''president'', ''.''],
      pos_tags = [''NNP'', ''VBD'', ''NN'', ''.''],
      ner_tags = [''PERSON'', ''O'', ''TITLE'', ''O''],
      tokens = [\<lparr>character_span = (0, 5)\<rparr>, \<lparr>character_span = (6, 9)\<rparr>,
                \<lparr>character_span = (10, 19)\<rparr>, \<lparr>character_span = (19, 20)\<rparr>],
      depparse = None,
      clean_text = ''Obama was president.'',
      original_text = ''Obama was president. ''\<rparr>"

definition sentence_paris :: AnnotatedSentence where
  "sentence_paris =
     \<lparr>sentence_index = 1,
      words = [''He'', ''visited'', ''Paris'', ''.''],
      lemmas' = [''he'', ''visit'', ''Paris'', ''.''],
      pos_tags = [''PRP'', ''VBD'', ''NNP'', ''.''],
      ner_tags = [''O'', ''O'', ''LOCATION'', ''O''],
      tokens = [\<lparr>character_span = (21, 23)\<rparr>, \<lparr>character_span = (24, 31)\<rparr>,
                \<lparr>character_span = (32, 37)\<rparr>, \<lparr>character_span = (37, 38)\<rparr>],
      depparse = None,
      clean_text = ''He visited Paris.'',
      original_text = ''He visited Paris.''\<rparr>"

definition answer_obama :: AnnotatedDocument where
  "answer_obama = \<lparr>sentences = [sentence_obama, sentence_paris]\<rparr>"

definition answer_empty :: AnnotatedDocument where
  "answer_empty = \<lparr>sentences = []\<rparr>"

text \<open>An answer whose sentence has four words and no token, and one whose sentences come
  with their indices in descending order.\<close>

definition answer_uneven :: AnnotatedDocument where
  "answer_uneven = \<lparr>sentences = [sentence_obama\<lparr>tokens := []\<rparr>]\<rparr>"

definition answer_unordered :: AnnotatedDocument where
  "answer_unordered = \<lparr>sentences = [sentence_paris, sentence_obama]\<rparr>"

definition no_fault :: "db_op \<Rightarrow> nat option" where
  "no_fault op = None"

definition env_answers :: "AnnotatedDocument \<Rightarrow> env" where
  "env_answers ad = \<lparr>service = (\<lambda>txt kwargs. Inr ad), db_fault = no_fault\<rparr>"

definition env_down :: env where
  "env_down = \<lparr>service = (\<lambda>txt kwargs. Inl (ServiceError ''unavailable'')),
               db_fault = no_fault\<rparr>"

definition env_insert_fails :: env where
  "env_insert_fails =
     \<lparr>service = (\<lambda>txt kwargs. Inr answer_obama),
      db_fault = (\<lambda>op. if op = Bulk_create_Sentences then Some 1 else None)\<rparr>"

definition world_fresh :: world where
  "world_fresh =
     \<lparr>Document_table = [doc_obama], Sentence_table = [], Mention_table = [],
      Relation_table = [], Sentence_id_seq = 1, CoreNLP_calls = []\<rparr>"

definition old_Sentence :: "string \<Rightarrow> Sentence" where
  "old_Sentence d =
     \<lparr>Sentence_corpus_id = ''default'', Sentence_doc = d, Sentence_sentence_index = 0,
      Sentence_words = [''Hello''], Sentence_lemmas = [''hello''], Sentence_pos_tags = [''UH''],
      Sentence_ner_tags = [''O''], Sentence_doc_char_begin = [0], Sentence_doc_char_end = [5],
      Sentence_dependencies = None, Sentence_gloss = ''Hello'', Sentence_searchable = []\<rparr>"

definition old_Mention :: "int \<Rightarrow> string \<Rightarrow> nat \<Rightarrow> Mention" where
  "old_Mention i d s =
     \<lparr>Mention_id = i, Mention_corpus_id = ''default'', Mention_doc = d, Mention_sentence = s,
      Mention_token_begin = [0], Mention_token_end = [1],
      Mention_doc_char_begin = [0], Mention_doc_char_end = [5],
      Mention_doc_canonical_char_begin = [0], Mention_doc_canonical_char_end = [5],
      Mention_ner = ''O'', Mention_best_entity = ''Hello'', Mention_best_entity_score = None,
      Mention_unambiguous_link = True, Mention_alt_entity = [],
      Mention_alt_entity_score = None, Mention_gloss = Some ''Hello''\<rparr>"

definition old_Relation :: "int \<Rightarrow> nat \<Rightarrow> int \<Rightarrow> Relation" where
  "old_Relation i s m =
     \<lparr>Relation_id = i, Relation_corpus_id = ''default'', Relation_sentence = s,
      Relation_entity = Some m, Relation_entity_name = ''Hello'',
      Relation_entity_gloss = ''Hello'', Relation_slot_value = None,
      Relation_slot_value_name = [], Relation_slot_value_gloss = [],
      Relation_relation = ''greets'', Relation_score = 1\<rparr>"

definition world_annotated :: world where
  "world_annotated =
     \<lparr>Document_table = [doc_obama, doc_obama\<lparr>Document_id := ''d2''\<rparr>],
      Sentence_table = [(1, old_Sentence ''d1''), (2, old_Sentence ''d2'')],
      Mention_table = [old_Mention 7 ''d1'' 1, old_Mention 8 ''d2'' 2],
      Relation_table = [old_Relation 3 1 7, old_Relation 4 2 8],
      Sentence_id_seq = 3,
      CoreNLP_calls = []\<rparr>"

text \<open>
  A state whose rows cross the two documents: Mention 9 belongs to the first document and
  sits on the Sentence of the second, Mention 10 belongs to the second document and sits
  on the Sentence of the first; Relation 3 is on the Sentence of the first document with
  a Mention of the second, Relations 5 and 6 are on the Sentence of the second document
  with Mentions 10 and 9.
\<close>

definition world_crossed :: world where
  "world_crossed =
     \<lparr>Document_table = [doc_obama, doc_obama\<lparr>Document_id := ''d2''\<rparr>],
      Sentence_table = [(1, old_Sentence ''d1''), (2, old_Sentence ''d2'')],
      Mention_table = [old_Mention 7 ''d1'' 1, old_Mention 8 ''d2'' 2,
                       old_Mention 9 ''d1'' 2, old_Mention 10 ''d2'' 1],
      Relation_table = [old_Relation 3 1 8, old_Relation 4 2 8,
                        old_Relation 5 2 10, old_Relation 6 2 9],
      Sentence_id_seq = 3,
      CoreNLP_calls = []\<rparr>"

section \<open>A statement that returns: what it did\<close>

lemma and_then_InrD:
  assumes "and_then m f w = (Inr y, w'')"
  obtains x w' where "m w = (Inr x, w')" and "f x w' = (Inr y, w'')"
  using assms by (auto simp: and_then_def split: prod.splits sum.splits)

lemma Sentence_exists_InrD:
  assumes "Sentence_exists e op self w = (Inr x, w')"
  shows "w' = w" and "x = (Sentence_filter_doc self w \<noteq> [])" and "db_fault e op = None"
  using assms by (auto simp: Sentence_exists_def split: option.splits)

lemma Sentence_delete_InrD:
  assumes "Sentence_delete e self w = (Inr x, w')"
  shows "w' = delete_Sentence_rows (map fst (Sentence_filter_doc self w)) w"
    and "db_fault e Delete_Sentences = None"
  using assms by (auto simp: Sentence_delete_def Let_def split: option.splits)

lemma Mention_delete_InrD:
  assumes "Mention_delete e self w = (Inr x, w')"
  shows "w' = delete_Mention_rows (map Mention_id (Mention_filter_doc self w)) w"
    and "db_fault e Delete_Mentions = None"
  using assms by (auto simp: Mention_delete_def Let_def split: option.splits)

lemma insert_Sentence_rows_Nil: "insert_Sentence_rows [] w = w"
  by (simp add: insert_Sentence_rows_def)

lemma Sentence_bulk_create_InrD:
  assumes "Sentence_bulk_create e objs w = (Inr x, w')"
  shows "w' = insert_Sentence_rows objs w"
    and "objs = [] \<or> db_fault e Bulk_create_Sentences = None"
  using assms by (auto simp: Sentence_bulk_create_def insert_Sentence_rows_Nil split: option.splits if_splits)

lemma Mention_bulk_create_Nil: "Mention_bulk_create e [] w = (Inr (), w)"
  by (simp add: Mention_bulk_create_def)

lemma CoreNLPService_annotate_InrD:
  assumes "CoreNLPService_annotate e txt kwargs w = (Inr ad, w')"
  shows "service e txt kwargs = Inr ad"
    and "w' = w\<lparr>CoreNLP_calls := CoreNLP_calls w @ [(txt, kwargs)]\<rparr>"
  using assms by (auto simp: CoreNLPService_annotate_def)

lemma deletes_InrD:
  assumes "(if ex \<and> force then and_then (Sentence_delete e self) (\<lambda>_. Mention_delete e self)
            else pure ()) w = (Inr x, w')"
  shows "w' = (if ex \<and> force then after_delete self w else w)"
    and "ex \<and> force \<longrightarrow> db_fault e Delete_Sentences = None \<and> db_fault e Delete_Mentions = None"
proof -
  show "w' = (if ex \<and> force then after_delete self w else w)"
  proof (cases "ex \<and> force")
    case True
    with assms have "and_then (Sentence_delete e self) (\<lambda>_. Mention_delete e self) w = (Inr x, w')"
      by simp
    then obtain u w1 where 1: "Sentence_delete e self w = (Inr u, w1)"
      and 2: "Mention_delete e self w1 = (Inr x, w')"
      by (rule and_then_InrD)
    from Sentence_delete_InrD(1)[OF 1] Mention_delete_InrD(1)[OF 2] True
    show ?thesis by (simp add: after_delete_def Let_def)
  next
    case False
    with assms show ?thesis by (auto simp: pure_def)
  qed
  show "ex \<and> force \<longrightarrow> db_fault e Delete_Sentences = None \<and> db_fault e Delete_Mentions = None"
  proof
    assume True: "ex \<and> force"
    with assms have "and_then (Sentence_delete e self) (\<lambda>_. Mention_delete e self) w = (Inr x, w')"
      by simp
    then obtain u w1 where 1: "Sentence_delete e self w = (Inr u, w1)"
      and 2: "Mention_delete e self w1 = (Inr x, w')"
      by (rule and_then_InrD)
    from Sentence_delete_InrD(2)[OF 1] Mention_delete_InrD(2)[OF 2]
    show "db_fault e Delete_Sentences = None \<and> db_fault e Delete_Mentions = None" by simp
  qed
qed

lemma annotate_block_InrD:
  assumes "annotate_block e self force kwargs w = (Inr u, w')"
  obtains ad where "service e (Document_gloss self) kwargs = Inr ad"
    and "w' = after_insert self kwargs ad
                (if Sentence_filter_doc self w \<noteq> [] \<and> force then after_delete self w else w)"
    and "sentences ad = [] \<or> db_fault e Bulk_create_Sentences = None"
proof -
  from assms obtain ex w1 where 1: "Sentence_exists e Exists_in_transaction self w = (Inr ex, w1)"
    and r1: "and_then (if ex \<and> force
               then and_then (Sentence_delete e self) (\<lambda>_. Mention_delete e self)
               else pure ()) (\<lambda>_.
     and_then (CoreNLPService_annotate e (Document_gloss self) kwargs) (\<lambda>annotated_document.
     and_then (Sentence_bulk_create e
                 (map (new_Sentence self) (sentences annotated_document))) (\<lambda>_.
     Mention_bulk_create e []))) w1 = (Inr u, w')"
    unfolding annotate_block_def by (rule and_then_InrD)
  from Sentence_exists_InrD[OF 1] have w1: "w1 = w" and ex: "ex = (Sentence_filter_doc self w \<noteq> [])"
    by simp_all
  from r1 obtain x2 w2 where 2: "(if ex \<and> force
               then and_then (Sentence_delete e self) (\<lambda>_. Mention_delete e self)
               else pure ()) w1 = (Inr x2, w2)"
    and r2: "and_then (CoreNLPService_annotate e (Document_gloss self) kwargs) (\<lambda>annotated_document.
     and_then (Sentence_bulk_create e
                 (map (new_Sentence self) (sentences annotated_document))) (\<lambda>_.
     Mention_bulk_create e [])) w2 = (Inr u, w')"
    by (rule and_then_InrD)
  from deletes_InrD(1)[OF 2] w1 ex
  have w2: "w2 = (if Sentence_filter_doc self w \<noteq> [] \<and> force then after_delete self w else w)"
    by simp
  from r2 obtain ad w3 where 3: "CoreNLPService_annotate e (Document_gloss self) kwargs w2 = (Inr ad, w3)"
    and r3: "and_then (Sentence_bulk_create e (map (new_Sentence self) (sentences ad)))
               (\<lambda>_. Mention_bulk_create e []) w3 = (Inr u, w')"
    by (rule and_then_InrD)
  from r3 obtain x4 w4 where 4: "Sentence_bulk_create e (map (new_Sentence self) (sentences ad)) w3 = (Inr x4, w4)"
    and r4: "Mention_bulk_create e [] w4 = (Inr u, w')"
    by (rule and_then_InrD)
  from r4 have w4: "w4 = w'" by (simp add: Mention_bulk_create_Nil)
  have "w' = after_insert self kwargs ad w2"
    using Sentence_bulk_create_InrD(1)[OF 4] CoreNLPService_annotate_InrD(2)[OF 3] w4
    by (simp add: after_insert_def)
  moreover have "sentences ad = [] \<or> db_fault e Bulk_create_Sentences = None"
    using Sentence_bulk_create_InrD(2)[OF 4] by simp
  ultimately show thesis
    using that CoreNLPService_annotate_InrD(1)[OF 3] w2 by blast
qed

lemma atomic_InrD:
  assumes "atomic e body w = (Inr x, w')"
  shows "body w = (Inr x, w')" and "db_fault e Commit = None"
  using assms by (auto simp: atomic_def split: prod.splits sum.splits option.splits)

lemma atomic_Inl_tables:
  assumes "fst (atomic e body w) = Inl err"
  shows "Document_table (snd (atomic e body w)) = Document_table w"
    and "Sentence_table (snd (atomic e body w)) = Sentence_table w"
    and "Mention_table (snd (atomic e body w)) = Mention_table w"
    and "Relation_table (snd (atomic e body w)) = Relation_table w"
  using assms by (auto simp: atomic_def rollback_def split: prod.splits sum.splits option.splits)

section \<open>\<^verbatim>\<open>annotate\<close> as a whole\<close>

lemma annotate_unfold:
  "annotate e self force kwargs w =
     (case db_fault e Exists_before_transaction of
        Some k \<Rightarrow> (Inl (DatabaseError Exists_before_transaction), w)
      | None \<Rightarrow>
          if Sentence_filter_doc self w \<noteq> [] \<and> \<not> force then (Inr (), w)
          else atomic e (annotate_block e self force kwargs) w)"
  by (simp add: annotate_def and_then_def Sentence_exists_def pure_def split: option.splits)

lemma annotate_InrD:
  assumes "annotate e self force kwargs w = (Inr u, w')"
  shows "(Sentence_filter_doc self w \<noteq> [] \<and> \<not> force \<and> w' = w) \<or>
         (\<not> (Sentence_filter_doc self w \<noteq> [] \<and> \<not> force) \<and>
          (\<exists>ad. service e (Document_gloss self) kwargs = Inr ad \<and>
                w' = after_insert self kwargs ad
                       (if Sentence_filter_doc self w \<noteq> [] \<and> force then after_delete self w else w) \<and>
                (sentences ad = [] \<or> db_fault e Bulk_create_Sentences = None)))"
proof (cases "Sentence_filter_doc self w \<noteq> [] \<and> \<not> force")
  case True
  with assms show ?thesis
    by (auto simp: annotate_unfold split: option.splits)
next
  case False
  with assms have "atomic e (annotate_block e self force kwargs) w = (Inr u, w')"
    by (auto simp: annotate_unfold split: option.splits)
  then have "annotate_block e self force kwargs w = (Inr u, w')"
    by (rule atomic_InrD)
  then obtain ad where "service e (Document_gloss self) kwargs = Inr ad"
    and "w' = after_insert self kwargs ad
                (if Sentence_filter_doc self w \<noteq> [] \<and> force then after_delete self w else w)"
    and "sentences ad = [] \<or> db_fault e Bulk_create_Sentences = None"
    by (rule annotate_block_InrD)
  with False show ?thesis by blast
qed

lemma annotate_Inl_tables:
  assumes "fst (annotate e self force kwargs w) = Inl err"
  shows "Document_table (snd (annotate e self force kwargs w)) = Document_table w"
    and "Sentence_table (snd (annotate e self force kwargs w)) = Sentence_table w"
    and "Mention_table (snd (annotate e self force kwargs w)) = Mention_table w"
    and "Relation_table (snd (annotate e self force kwargs w)) = Relation_table w"
  using assms atomic_Inl_tables[of e "annotate_block e self force kwargs" w err]
  by (auto simp: annotate_unfold split: option.splits if_splits)

lemma Document_table_after_delete: "Document_table (after_delete self w) = Document_table w"
  by (simp add: after_delete_def delete_Sentence_rows_def delete_Mention_rows_def Let_def)

lemma Document_table_after_insert: "Document_table (after_insert self kwargs ad w) = Document_table w"
  by (simp add: after_insert_def insert_Sentence_rows_def)

text \<open>A call that meets no fault.\<close>

lemma annotate_block_run:
  assumes "db_fault e Exists_in_transaction = None"
    and "db_fault e Delete_Sentences = None"
    and "db_fault e Delete_Mentions = None"
    and "db_fault e Bulk_create_Sentences = None"
    and "service e (Document_gloss self) kwargs = Inr ad"
  shows "annotate_block e self force kwargs w =
           (Inr (), after_insert self kwargs ad
              (if Sentence_filter_doc self w \<noteq> [] \<and> force then after_delete self w else w))"
  using assms
  by (simp add: annotate_block_def and_then_def Sentence_exists_def Sentence_delete_def
      Mention_delete_def pure_def CoreNLPService_annotate_def Sentence_bulk_create_def
      Mention_bulk_create_def after_insert_def after_delete_def Let_def insert_Sentence_rows_Nil)

lemma annotate_run:
  assumes "\<And>op. db_fault e op = None"
    and "service e (Document_gloss self) kwargs = Inr ad"
    and "\<not> (Sentence_filter_doc self w \<noteq> [] \<and> \<not> force)"
  shows "annotate e self force kwargs w =
           (Inr (), after_insert self kwargs ad
              (if Sentence_filter_doc self w \<noteq> [] \<and> force then after_delete self w else w))"
proof -
  have "annotate e self force kwargs w = atomic e (annotate_block e self force kwargs) w"
    using assms(3) by (auto simp: annotate_unfold assms(1))
  then show ?thesis
    by (simp add: atomic_def assms(1)
        annotate_block_run[OF assms(1) assms(1) assms(1) assms(1) assms(2)])
qed


section \<open>The tables after the deletes and after the insert\<close>

lemma Sentence_table_after_insert:
  "Sentence_table (after_insert self kwargs ad w) =
     Sentence_table w @
       zip [Sentence_id_seq w ..< Sentence_id_seq w + length (sentences ad)]
         (map (new_Sentence self) (sentences ad))"
  by (simp add: after_insert_def insert_Sentence_rows_def)

lemma other_tables_after_insert:
  "Mention_table (after_insert self kwargs ad w) = Mention_table w"
  "Relation_table (after_insert self kwargs ad w) = Relation_table w"
  "CoreNLP_calls (after_insert self kwargs ad w) = CoreNLP_calls w @ [(Document_gloss self, kwargs)]"
  "Sentence_id_seq (after_insert self kwargs ad w) = Sentence_id_seq w + length (sentences ad)"
  by (simp_all add: after_insert_def insert_Sentence_rows_def)

lemma Sentence_table_after_delete:
  "Sentence_table (after_delete self w) =
     filter (\<lambda>row. fst row \<notin> fst ` set (Sentence_filter_doc self w)) (Sentence_table w)"
  by (simp add: after_delete_def delete_Sentence_rows_def delete_Mention_rows_def Let_def)

lemma Sentence_id_seq_after_delete: "Sentence_id_seq (after_delete self w) = Sentence_id_seq w"
  by (simp add: after_delete_def delete_Sentence_rows_def delete_Mention_rows_def Let_def)

lemma CoreNLP_calls_after_delete: "CoreNLP_calls (after_delete self w) = CoreNLP_calls w"
  by (simp add: after_delete_def delete_Sentence_rows_def delete_Mention_rows_def Let_def)

lemma Sentence_filter_doc_after_delete: "Sentence_filter_doc self (after_delete self w) = []"
  unfolding Sentence_filter_doc_def Sentence_table_after_delete filter_empty_conv
  by (auto simp: image_iff)

lemma tables_delete_Mention_rows:
  "Sentence_table (delete_Mention_rows mids w) = Sentence_table w"
  "Mention_table (delete_Mention_rows mids w) =
     filter (\<lambda>m. Mention_id m \<notin> set mids) (Mention_table w)"
  "Relation_table (delete_Mention_rows mids w) =
     filter (\<lambda>r. Relation_entity r \<notin> set (map Some mids)
                \<and> Relation_slot_value r \<notin> set (map Some mids)) (Relation_table w)"
  by (simp_all add: delete_Mention_rows_def)

lemma tables_delete_Sentence_rows:
  "Sentence_table (delete_Sentence_rows sids w) =
     filter (\<lambda>row. fst row \<notin> set sids) (Sentence_table w)"
  "Mention_table (delete_Sentence_rows sids w) =
     filter (\<lambda>m. Mention_id m \<notin> set (map Mention_id
                (filter (\<lambda>m. Mention_sentence m \<in> set sids) (Mention_table w))))
       (Mention_table w)"
  "Relation_table (delete_Sentence_rows sids w) =
     filter (\<lambda>r. Relation_entity r \<notin> set (map Some (map Mention_id
                   (filter (\<lambda>m. Mention_sentence m \<in> set sids) (Mention_table w))))
                \<and> Relation_slot_value r \<notin> set (map Some (map Mention_id
                   (filter (\<lambda>m. Mention_sentence m \<in> set sids) (Mention_table w)))))
       (filter (\<lambda>r. Relation_sentence r \<notin> set sids) (Relation_table w))"
  by (simp_all add: delete_Sentence_rows_def delete_Mention_rows_def)

lemma after_delete_unfold:
  "after_delete self w =
     delete_Mention_rows
       (map Mention_id (Mention_filter_doc self
          (delete_Sentence_rows (map fst (Sentence_filter_doc self w)) w)))
       (delete_Sentence_rows (map fst (Sentence_filter_doc self w)) w)"
  by (simp add: after_delete_def Let_def)

lemma filter_own_keys_gone:
  "filter P (filter (\<lambda>x. f x \<notin> set (map f (filter P xs))) xs) = []"
  by (auto simp: filter_empty_conv)

lemma Mention_filter_doc_after_delete: "Mention_filter_doc self (after_delete self w) = []"
  unfolding after_delete_unfold Mention_filter_doc_def tables_delete_Mention_rows
  by (rule filter_own_keys_gone)

lemma subseq_Mention_table_after_delete:
  "subseq (Mention_table (after_delete self w)) (Mention_table w)"
  unfolding after_delete_unfold tables_delete_Mention_rows tables_delete_Sentence_rows
  by (rule subseq_order.order_trans[OF subseq_filter_left subseq_filter_left])

lemma filter_snd_zip:
  assumes "\<And>y. y \<in> set ys \<Longrightarrow> P y"
  shows "filter (\<lambda>row. P (snd row)) (zip xs ys) = zip xs ys"
  using assms by (auto simp: filter_id_conv dest: set_zip_rightD)

lemma Sentence_doc_new_Sentence: "Sentence_doc (new_Sentence self s) = Document_id self"
  by (simp add: new_Sentence_def)

lemma Sentence_filter_doc_after_insert:
  "Sentence_filter_doc self (after_insert self kwargs ad w) =
     Sentence_filter_doc self w @
       zip [Sentence_id_seq w ..< Sentence_id_seq w + length (sentences ad)]
         (map (new_Sentence self) (sentences ad))"
proof -
  have "filter (\<lambda>row. Sentence_doc (snd row) = Document_id self)
          (zip [Sentence_id_seq w ..< Sentence_id_seq w + length (sentences ad)]
             (map (new_Sentence self) (sentences ad))) =
        zip [Sentence_id_seq w ..< Sentence_id_seq w + length (sentences ad)]
             (map (new_Sentence self) (sentences ad))"
    by (rule filter_snd_zip[where P = "\<lambda>s. Sentence_doc s = Document_id self"])
       (auto simp: Sentence_doc_new_Sentence)
  then show ?thesis
    by (simp add: Sentence_filter_doc_def Sentence_table_after_insert)
qed

lemma annotate_recomputed:
  assumes "annotate e self force kwargs w = (Inr u, w')"
    and "\<not> (Sentence_filter_doc self w \<noteq> [] \<and> \<not> force)"
    and "service e (Document_gloss self) kwargs = Inr ad"
  shows "w' = after_insert self kwargs ad
                (if Sentence_filter_doc self w \<noteq> [] \<and> force then after_delete self w else w)"
  using annotate_InrD[OF assms(1)] assms(2,3) by auto

lemma annotate_recomputed_rows:
  assumes "annotate e self force kwargs w = (Inr u, w')"
    and "\<not> (Sentence_filter_doc self w \<noteq> [] \<and> \<not> force)"
    and "service e (Document_gloss self) kwargs = Inr ad"
  shows "Sentence_filter_doc self w' =
           zip [Sentence_id_seq w ..< Sentence_id_seq w + length (sentences ad)]
             (map (new_Sentence self) (sentences ad))"
proof (cases "Sentence_filter_doc self w \<noteq> [] \<and> force")
  case True
  with annotate_recomputed[OF assms] have "w' = after_insert self kwargs ad (after_delete self w)"
    by simp
  then show ?thesis
    by (simp add: Sentence_filter_doc_after_insert Sentence_filter_doc_after_delete
        Sentence_id_seq_after_delete)
next
  case False
  with annotate_recomputed[OF assms] have "w' = after_insert self kwargs ad w" by simp
  moreover from False assms(2) have "Sentence_filter_doc self w = []" by auto
  ultimately show ?thesis by (simp add: Sentence_filter_doc_after_insert)
qed

lemma map_snd_zip_upt: "map snd (zip [a ..< a + length ys] ys) = ys"
  by (simp add: map_snd_zip)

lemma in_zip_upt_map:
  assumes "row \<in> set (zip [a ..< a + length ys] (map f ys))"
  shows "\<exists>y \<in> set ys. snd row = f y"
proof -
  obtain k s where row: "row = (k, s)" by (cases row)
  from assms have "s \<in> set (map f ys)" unfolding row by (rule set_zip_rightD)
  then show ?thesis by (auto simp: row)
qed

lemma Sentence_sentence_index_new_Sentence:
  "Sentence_sentence_index (new_Sentence self s) = sentence_index s"
  by (simp add: new_Sentence_def)

lemma keys_of_zip_upt_map:
  "map (\<lambda>row. Sentence_sentence_index (snd row))
     (zip [a ..< a + length ss] (map (new_Sentence self) ss)) = map sentence_index ss"
proof -
  have "map (\<lambda>row. Sentence_sentence_index (snd row))
          (zip [a ..< a + length ss] (map (new_Sentence self) ss)) =
        map Sentence_sentence_index (map snd (zip [a ..< a + length ss]
          (map (new_Sentence self) ss)))"
    by (simp only: map_map comp_def)
  also have "map snd (zip [a ..< a + length ss] (map (new_Sentence self) ss)) =
        map (new_Sentence self) ss"
    using map_snd_zip_upt[of a "map (new_Sentence self) ss"] by simp
  also have "map Sentence_sentence_index (map (new_Sentence self) ss) = map sentence_index ss"
    by (simp add: Sentence_sentence_index_new_Sentence)
  finally show ?thesis .
qed

lemma sorted_arrangement_unique:
  fixes f :: "'a \<Rightarrow> int"
  assumes "sorted_wrt (<) (map f xs)" and "mset ys = mset xs" and "sorted (map f ys)"
  shows "ys = xs"
proof -
  from assms(1) have sx: "sorted (map f xs)" and dx: "distinct (map f xs)"
    by (simp_all add: strict_sorted_iff)
  from assms(2) have "mset (map f ys) = mset (map f xs)" by simp
  with dx have dy: "distinct (map f ys)"
    by (metis mset_eq_imp_distinct_iff)
  from assms(2) have set: "set ys = set xs" by (rule mset_eq_setD)
  from dx have "inj_on f (set xs)" by (simp add: distinct_map)
  with set have inj: "inj_on f (set ys \<union> set xs)" by simp
  show ?thesis
    by (rule map_sorted_distinct_set_unique[OF inj assms(3) dy sx dx set])
qed

lemma annotate_result_cases:
  obtains (failed) err where "fst (annotate e self force kwargs w) = Inl err"
  | (idle) "snd (annotate e self force kwargs w) = w"
  | (recomputed) ad where "service e (Document_gloss self) kwargs = Inr ad"
      and "snd (annotate e self force kwargs w) = after_insert self kwargs ad
             (if Sentence_filter_doc self w \<noteq> [] \<and> force then after_delete self w else w)"
proof (cases "annotate e self force kwargs w")
  case (Pair r w')
  show ?thesis
  proof (cases r)
    case (Inl err)
    with Pair show ?thesis by (simp add: failed)
  next
    case (Inr u)
    with Pair have "annotate e self force kwargs w = (Inr u, w')" by simp
    from annotate_InrD[OF this] Pair show ?thesis
      using idle recomputed by auto
  qed
qed

lemma filter_filter_absorb:
  assumes "\<And>x. x \<in> set xs \<Longrightarrow> P x \<Longrightarrow> Q x"
  shows "filter P (filter Q xs) = filter P xs"
  using assms by (induction xs) auto

lemma same_key_same_row:
  assumes "distinct (map f xs)" and "x \<in> set xs" and "y \<in> set xs" and "f x = f y"
  shows "x = y"
  using assms by (meson distinct_map inj_onD)

lemma other_Sentences_after_delete:
  assumes "keys_ok w"
  shows "filter (\<lambda>row. Sentence_doc (snd row) \<noteq> Document_id self)
           (Sentence_table (after_delete self w)) =
         filter (\<lambda>row. Sentence_doc (snd row) \<noteq> Document_id self) (Sentence_table w)"
  unfolding Sentence_table_after_delete
proof (rule filter_filter_absorb)
  fix row
  assume row: "row \<in> set (Sentence_table w)" "Sentence_doc (snd row) \<noteq> Document_id self"
  show "fst row \<notin> fst ` set (Sentence_filter_doc self w)"
  proof
    assume "fst row \<in> fst ` set (Sentence_filter_doc self w)"
    then obtain row' where r': "row' \<in> set (Sentence_table w)"
      "Sentence_doc (snd row') = Document_id self" "fst row = fst row'"
      by (auto simp: Sentence_filter_doc_def)
    from assms have "distinct (map fst (Sentence_table w))" by (simp add: keys_ok_def)
    from same_key_same_row[OF this row(1) r'(1) r'(3)] row(2) r'(2) show False by simp
  qed
qed

lemma other_Sentences_after_insert:
  "filter (\<lambda>row. Sentence_doc (snd row) \<noteq> Document_id self)
     (Sentence_table (after_insert self kwargs ad w)) =
   filter (\<lambda>row. Sentence_doc (snd row) \<noteq> Document_id self) (Sentence_table w)"
proof -
  have "filter (\<lambda>row. Sentence_doc (snd row) \<noteq> Document_id self)
          (zip [Sentence_id_seq w ..< Sentence_id_seq w + length (sentences ad)]
             (map (new_Sentence self) (sentences ad))) = []"
    unfolding filter_empty_conv
  proof (intro ballI notI)
    fix row
    assume "row \<in> set (zip [Sentence_id_seq w ..< Sentence_id_seq w + length (sentences ad)]
             (map (new_Sentence self) (sentences ad)))"
      and ne: "Sentence_doc (snd row) \<noteq> Document_id self"
    from in_zip_upt_map[OF this(1)] ne show False
      by (auto simp: Sentence_doc_new_Sentence)
  qed
  then show ?thesis by (simp add: Sentence_table_after_insert)
qed

text \<open>What the two deletes of a forced call leave of the Mentions and Relations.\<close>

lemma own_Sentence_keys_filter_doc:
  "own_Sentence_keys self w = map fst (Sentence_filter_doc self w)"
  by (simp add: own_Sentence_keys_def Sentence_filter_doc_def)

lemma Mention_table_after_delete:
  "Mention_table (after_delete self w) =
     filter (\<lambda>m. Mention_id m \<notin> set (map Mention_id (filter (\<lambda>m. Mention_doc m = Document_id self)
        (filter (\<lambda>m. Mention_id m \<notin> set (map Mention_id
                (filter (\<lambda>m. Mention_sentence m \<in> set (own_Sentence_keys self w)) (Mention_table w))))
          (Mention_table w)))))
       (filter (\<lambda>m. Mention_id m \<notin> set (map Mention_id
                (filter (\<lambda>m. Mention_sentence m \<in> set (own_Sentence_keys self w)) (Mention_table w))))
          (Mention_table w))"
  unfolding after_delete_unfold tables_delete_Mention_rows Mention_filter_doc_def
    tables_delete_Sentence_rows own_Sentence_keys_filter_doc ..

lemma Mentions_after_delete:
  assumes "keys_ok w"
  shows "Mention_table (after_delete self w) =
         filter (\<lambda>m. Mention_doc m \<noteq> Document_id self
                    \<and> Mention_sentence m \<notin> set (own_Sentence_keys self w)) (Mention_table w)"
proof -
  from assms have d: "distinct (map Mention_id (Mention_table w))" by (simp add: keys_ok_def)
  let ?T = "Mention_table w"
  let ?P1 = "\<lambda>m. Mention_sentence m \<notin> set (own_Sentence_keys self w)"
  let ?P2 = "\<lambda>m. Mention_doc m \<noteq> Document_id self"
  let ?Q1 = "\<lambda>m. Mention_id m \<notin> set (map Mention_id
                (filter (\<lambda>m. Mention_sentence m \<in> set (own_Sentence_keys self w)) ?T))"
  have q1: "?Q1 m = ?P1 m" if "m \<in> set ?T" for m
  proof
    assume "?Q1 m"
    with that show "?P1 m" by auto
  next
    assume p: "?P1 m"
    show "?Q1 m"
    proof
      assume "Mention_id m \<in> set (map Mention_id
                (filter (\<lambda>m. Mention_sentence m \<in> set (own_Sentence_keys self w)) ?T))"
      then obtain m' where m': "m' \<in> set ?T"
        "Mention_sentence m' \<in> set (own_Sentence_keys self w)" "Mention_id m = Mention_id m'"
        by auto
      from same_key_same_row[OF d that m'(1) m'(3)] p m'(2) show False by simp
    qed
  qed
  have f1: "filter ?Q1 ?T = filter ?P1 ?T"
    by (rule filter_cong[OF refl]) (rule q1)
  let ?Q2 = "\<lambda>m. Mention_id m \<notin> set (map Mention_id (filter (\<lambda>m. Mention_doc m = Document_id self)
        (filter ?P1 ?T)))"
  have q2: "?Q2 m = ?P2 m" if "m \<in> set (filter ?P1 ?T)" for m
  proof
    assume "?Q2 m"
    with that show "?P2 m" by auto
  next
    assume p: "?P2 m"
    show "?Q2 m"
    proof
      assume "Mention_id m \<in> set (map Mention_id (filter (\<lambda>m. Mention_doc m = Document_id self)
        (filter ?P1 ?T)))"
      then obtain m' where m': "m' \<in> set ?T"
        "Mention_doc m' = Document_id self" "Mention_id m = Mention_id m'"
        by auto
      from that have "m \<in> set ?T" by simp
      from same_key_same_row[OF d this m'(1) m'(3)] p m'(2) show False by simp
    qed
  qed
  have f2: "filter ?Q2 (filter ?P1 ?T) = filter ?P2 (filter ?P1 ?T)"
    by (rule filter_cong[OF refl]) (rule q2)
  have "Mention_table (after_delete self w) = filter ?P2 (filter ?P1 ?T)"
    unfolding Mention_table_after_delete f1 f2 ..
  then show ?thesis by (simp add: conj_commute)
qed

lemma Relation_table_after_delete:
  "Relation_table (after_delete self w) =
     filter (\<lambda>r. Relation_entity r \<notin> set (map Some (map Mention_id
                 (Mention_filter_doc self
                    (delete_Sentence_rows (map fst (Sentence_filter_doc self w)) w))))
               \<and> Relation_slot_value r \<notin> set (map Some (map Mention_id
                 (Mention_filter_doc self
                    (delete_Sentence_rows (map fst (Sentence_filter_doc self w)) w)))))
       (filter (\<lambda>r. Relation_entity r \<notin> set (map Some (map Mention_id
                   (filter (\<lambda>m. Mention_sentence m \<in> set (own_Sentence_keys self w))
                      (Mention_table w))))
                \<and> Relation_slot_value r \<notin> set (map Some (map Mention_id
                   (filter (\<lambda>m. Mention_sentence m \<in> set (own_Sentence_keys self w))
                      (Mention_table w)))))
          (filter (\<lambda>r. Relation_sentence r \<notin> set (own_Sentence_keys self w))
             (Relation_table w)))"
  unfolding after_delete_unfold tables_delete_Mention_rows tables_delete_Sentence_rows
    own_Sentence_keys_filter_doc ..

lemma cascade_keys_union:
  "set (map Mention_id (filter (\<lambda>m. Mention_sentence m \<in> set (own_Sentence_keys self w))
          (Mention_table w))) \<union>
   set (map Mention_id (Mention_filter_doc self
          (delete_Sentence_rows (map fst (Sentence_filter_doc self w)) w)))
     = set (own_Mention_keys self w)"
  unfolding own_Mention_keys_def Mention_filter_doc_def tables_delete_Sentence_rows
    own_Sentence_keys_filter_doc[symmetric]
  by auto

lemma Relations_after_delete:
  "Relation_table (after_delete self w) =
   filter (\<lambda>r. Relation_sentence r \<notin> set (own_Sentence_keys self w)
              \<and> Relation_entity r \<notin> Some ` set (own_Mention_keys self w)
              \<and> Relation_slot_value r \<notin> Some ` set (own_Mention_keys self w))
     (Relation_table w)"
proof -
  define A where "A = set (map Mention_id (filter (\<lambda>m. Mention_sentence m \<in> set (own_Sentence_keys self w))
          (Mention_table w)))"
  define B where "B = set (map Mention_id (Mention_filter_doc self
          (delete_Sentence_rows (map fst (Sentence_filter_doc self w)) w)))"
  have AB: "A \<union> B = set (own_Mention_keys self w)"
    unfolding A_def B_def by (rule cascade_keys_union)
  have "Relation_table (after_delete self w) =
     filter (\<lambda>r. Relation_entity r \<notin> Some ` B \<and> Relation_slot_value r \<notin> Some ` B)
       (filter (\<lambda>r. Relation_entity r \<notin> Some ` A \<and> Relation_slot_value r \<notin> Some ` A)
          (filter (\<lambda>r. Relation_sentence r \<notin> set (own_Sentence_keys self w))
             (Relation_table w)))"
    unfolding Relation_table_after_delete A_def B_def by (simp only: set_map)
  also have "\<dots> = filter (\<lambda>r. Relation_sentence r \<notin> set (own_Sentence_keys self w)
              \<and> Relation_entity r \<notin> Some ` (A \<union> B)
              \<and> Relation_slot_value r \<notin> Some ` (A \<union> B)) (Relation_table w)"
    unfolding filter_filter by (rule filter_cong[OF refl]) auto
  finally show ?thesis unfolding AB .
qed

section \<open>Facts about the example data\<close>

lemma world_annotated_has_Sentences: "Sentence_filter_doc doc_obama world_annotated \<noteq> []"
  by (simp add: Sentence_filter_doc_def world_annotated_def doc_obama_def old_Sentence_def)

lemma keys_ok_world_annotated: "keys_ok world_annotated"
  by code_simp

lemma annotate_fresh_example:
  "annotate (env_answers ad) doc_obama False [] world_fresh =
     (Inr (), after_insert doc_obama [] ad world_fresh)"
  by (rule annotate_run[THEN trans])
     (simp_all add: env_answers_def no_fault_def world_fresh_def Sentence_filter_doc_def)

lemma world_fresh_has_no_Sentences: "Sentence_filter_doc doc_obama world_fresh = []"
  by (simp add: world_fresh_def Sentence_filter_doc_def)

lemma service_env_answers: "service (env_answers ad) txt kwargs = Inr ad"
  by (simp add: env_answers_def)

lemma answer_obama_even:
  "\<forall>s \<in> set (sentences answer_obama).
      length (words s) = length (tokens s) \<and> length (lemmas' s) = length (tokens s) \<and>
      length (pos_tags s) = length (tokens s) \<and> length (ner_tags s) = length (tokens s)"
  by code_simp

lemma rows_fresh_example:
  "Sentence_filter_doc doc_obama (after_insert doc_obama [] ad world_fresh) =
     zip [1 ..< 1 + length (sentences ad)] (map (new_Sentence doc_obama) (sentences ad))"
proof -
  have "Sentence_id_seq world_fresh = 1" by (simp add: world_fresh_def)
  then show ?thesis
    by (simp add: Sentence_filter_doc_after_insert world_fresh_has_no_Sentences)
qed

lemma answer_obama_increasing: "sorted_wrt (<) (map sentence_index (sentences answer_obama))"
  by code_simp

lemma world_crossed_has_Sentences: "Sentence_filter_doc doc_obama world_crossed \<noteq> []"
  by code_simp

lemma keys_ok_world_crossed: "keys_ok world_crossed"
  by code_simp

lemma annotate_crossed_example:
  "annotate (env_answers answer_obama) doc_obama True [] world_crossed =
     (Inr (), after_insert doc_obama [] answer_obama (after_delete doc_obama world_crossed))"
  using world_crossed_has_Sentences
  by (simp add: annotate_run[where ad = answer_obama] env_answers_def no_fault_def)

lemma own_keys_world_crossed:
  "own_Sentence_keys doc_obama world_crossed = [1]"
  "own_Mention_keys doc_obama world_crossed = [7, 9, 10]"
  by code_simp+

section \<open>The claims\<close>

text \<open>
  C8. \<^verbatim>\<open>annotate\<close> never changes a field of a \<^verbatim>\<open>Document\<close>: whatever the document, the
  \<^verbatim>\<open>force\<close> flag, the options, the answer of the service and the faults of the database,
  the \<^verbatim>\<open>Document\<close> rows (id, corpus_id, source, timestamp, title, gloss, metadata of each)
  are after the call what they were before it. The receiver itself is an argument that
  the function reads and never assigns.
\<close>

theorem annotate_keeps_Document_rows:
  "Document_table (snd (annotate e self force kwargs w)) = Document_table w"
proof (cases "annotate e self force kwargs w")
  case (Pair r w')
  show ?thesis
  proof (cases r)
    case (Inl err)
    with Pair show ?thesis using annotate_Inl_tables(1)[of e self force kwargs w err] by simp
  next
    case (Inr u)
    with Pair have "annotate e self force kwargs w = (Inr u, w')" by simp
    from annotate_InrD[OF this] Pair show ?thesis
      by (auto simp: Document_table_after_delete Document_table_after_insert)
  qed
qed

text \<open>
  C1. A forced call on a document that has Sentences, in which the request to the service
  fails or the bulk insert fails, raises, and leaves the tables as they were before the
  call: the Sentences and Mentions of the document (and every other row) are the ones it
  had, none deleted and none inserted.
\<close>

theorem annotate_forced_failure_rolls_back:
  assumes "Sentence_filter_doc self w \<noteq> []"
    and "isl (service e (Document_gloss self) kwargs) \<or>
         (\<exists>ad k. service e (Document_gloss self) kwargs = Inr ad \<and> sentences ad \<noteq> [] \<and>
                 db_fault e Bulk_create_Sentences = Some k)"
  shows "isl (fst (annotate e self True kwargs w)) \<and>
         Sentence_table (snd (annotate e self True kwargs w)) = Sentence_table w \<and>
         Mention_table (snd (annotate e self True kwargs w)) = Mention_table w \<and>
         Relation_table (snd (annotate e self True kwargs w)) = Relation_table w"
proof -
  have failed: "isl (fst (annotate e self True kwargs w))"
  proof (rule ccontr)
    assume "\<not> isl (fst (annotate e self True kwargs w))"
    then obtain u w' where "annotate e self True kwargs w = (Inr u, w')"
      by (cases "annotate e self True kwargs w"; cases "fst (annotate e self True kwargs w)") auto
    from annotate_InrD[OF this] obtain ad
      where "service e (Document_gloss self) kwargs = Inr ad"
        and "sentences ad = [] \<or> db_fault e Bulk_create_Sentences = None"
      by auto
    with assms(2) show False by auto
  qed
  then obtain err where "fst (annotate e self True kwargs w) = Inl err"
    by (cases "fst (annotate e self True kwargs w)") auto
  from annotate_Inl_tables(2-4)[OF this] failed show ?thesis by simp
qed

theorem annotate_forced_failure_rolls_back_witness:
  "Sentence_filter_doc doc_obama world_annotated \<noteq> [] \<and>
   isl (service env_down (Document_gloss doc_obama) []) \<and>
   isl (fst (annotate env_down doc_obama True [] world_annotated)) \<and>
   Sentence_table (snd (annotate env_down doc_obama True [] world_annotated)) =
     [(1, old_Sentence ''d1''), (2, old_Sentence ''d2'')] \<and>
   Mention_table (snd (annotate env_down doc_obama True [] world_annotated)) =
     [old_Mention 7 ''d1'' 1, old_Mention 8 ''d2'' 2] \<and>
   service env_insert_fails (Document_gloss doc_obama) [] = Inr answer_obama \<and>
   db_fault env_insert_fails Bulk_create_Sentences = Some 1 \<and>
   isl (fst (annotate env_insert_fails doc_obama True [] world_annotated)) \<and>
   Sentence_table (snd (annotate env_insert_fails doc_obama True [] world_annotated)) =
     [(1, old_Sentence ''d1''), (2, old_Sentence ''d2'')] \<and>
   Mention_table (snd (annotate env_insert_fails doc_obama True [] world_annotated)) =
     [old_Mention 7 ''d1'' 1, old_Mention 8 ''d2'' 2]"
proof -
  have down: "isl (service env_down (Document_gloss doc_obama) [])"
    by (simp add: env_down_def)
  have ins: "service env_insert_fails (Document_gloss doc_obama) [] = Inr answer_obama"
    "db_fault env_insert_fails Bulk_create_Sentences = Some 1" "sentences answer_obama \<noteq> []"
    by (simp_all add: env_insert_fails_def answer_obama_def)
  have tabs: "Sentence_table world_annotated = [(1, old_Sentence ''d1''), (2, old_Sentence ''d2'')]"
    "Mention_table world_annotated = [old_Mention 7 ''d1'' 1, old_Mention 8 ''d2'' 2]"
    by (simp_all add: world_annotated_def)
  show ?thesis
    using annotate_forced_failure_rolls_back[OF world_annotated_has_Sentences, of env_down "[]"]
      annotate_forced_failure_rolls_back[OF world_annotated_has_Sentences, of env_insert_fails "[]"]
      down ins world_annotated_has_Sentences
    by (simp add: tabs)
qed

text \<open>Without the transaction, the same failed call would leave the deletes behind.\<close>

lemma annotate_block_failure_leaves_deletes:
  "Sentence_table (snd (annotate_block env_down doc_obama True [] world_annotated)) =
     [(2, old_Sentence ''d2'')] \<and>
   Mention_table (snd (annotate_block env_down doc_obama True [] world_annotated)) =
     [old_Mention 8 ''d2'' 2]"
  by code_simp




text \<open>
  C3. A forced call that returns, on a document that has Sentences, replaces them: the
  rows of the Sentence table whose \<^verbatim>\<open>doc\<close> is the document are afterwards exactly one row
  per sentence of the answer to the request of this call, in its order and under fresh
  keys, each with the fields of that sentence; no Sentence row that the document had
  before is in the table; and the Mention table holds no row whose \<^verbatim>\<open>doc\<close> is the
  document, so none of its earlier Mentions survives, whatever Sentence they sat on.
\<close>

theorem annotate_force_replaces:
  assumes "filter (\<lambda>row. Sentence_doc (snd row) = Document_id self) (Sentence_table w) \<noteq> []"
    and "annotate e self True kwargs w = (Inr (), w')"
    and "service e (Document_gloss self) kwargs = Inr ad"
    and "keys_ok w"
  shows "filter (\<lambda>row. Sentence_doc (snd row) = Document_id self) (Sentence_table w') =
           zip [Sentence_id_seq w ..< Sentence_id_seq w + length (sentences ad)]
             (map (\<lambda>s. \<lparr>Sentence_corpus_id = Document_corpus_id self,
                        Sentence_doc = Document_id self,
                        Sentence_sentence_index = sentence_index s,
                        Sentence_words = words s,
                        Sentence_lemmas = lemmas' s,
                        Sentence_pos_tags = pos_tags s,
                        Sentence_ner_tags = ner_tags s,
                        Sentence_doc_char_begin = map (\<lambda>t. fst (character_span t)) (tokens s),
                        Sentence_doc_char_end = map (\<lambda>t. snd (character_span t)) (tokens s),
                        Sentence_dependencies = depparse s,
                        Sentence_gloss = clean_text s,
                        Sentence_searchable = []\<rparr>) (sentences ad)) \<and>
         (\<forall>row \<in> set (Sentence_table w).
            Sentence_doc (snd row) = Document_id self \<longrightarrow> row \<notin> set (Sentence_table w')) \<and>
         (\<forall>m \<in> set (Mention_table w'). Mention_doc m \<noteq> Document_id self) \<and>
         (\<forall>m \<in> set (Mention_table w).
            Mention_doc m = Document_id self \<longrightarrow> m \<notin> set (Mention_table w')) \<and>
         CoreNLP_calls w' = CoreNLP_calls w @ [(Document_gloss self, kwargs)]"
proof -
  from assms(1) have has: "Sentence_filter_doc self w \<noteq> []"
    by (simp add: Sentence_filter_doc_def)
  have w': "w' = after_insert self kwargs ad (after_delete self w)"
    using annotate_recomputed[OF assms(2) _ assms(3)] has by simp
  have "Sentence_filter_doc self w' =
           zip [Sentence_id_seq w ..< Sentence_id_seq w + length (sentences ad)]
             (map (new_Sentence self) (sentences ad))"
    using annotate_recomputed_rows[OF assms(2) _ assms(3)] by simp
  then have rows: "filter (\<lambda>row. Sentence_doc (snd row) = Document_id self) (Sentence_table w') =
           zip [Sentence_id_seq w ..< Sentence_id_seq w + length (sentences ad)]
             (map (new_Sentence self) (sentences ad))"
    by (simp add: Sentence_filter_doc_def)
  have gone: "row \<notin> set (Sentence_table w')"
    if "row \<in> set (Sentence_table w)" "Sentence_doc (snd row) = Document_id self" for row
  proof
    from that have own: "row \<in> set (Sentence_filter_doc self w)"
      by (simp add: Sentence_filter_doc_def)
    assume "row \<in> set (Sentence_table w')"
    then consider "row \<in> set (Sentence_table (after_delete self w))"
      | "row \<in> set (zip [Sentence_id_seq w ..< Sentence_id_seq w + length (sentences ad)]
             (map (new_Sentence self) (sentences ad)))"
      by (auto simp: w' Sentence_table_after_insert Sentence_id_seq_after_delete)
    then show False
    proof cases
      case 1
      with own show False by (auto simp: Sentence_table_after_delete)
    next
      case 2
      obtain k s where row: "row = (k, s)" by (cases row)
      from 2 have "k \<in> set [Sentence_id_seq w ..< Sentence_id_seq w + length (sentences ad)]"
        unfolding row by (rule set_zip_leftD)
      then have "Sentence_id_seq w \<le> fst row" by (simp add: row)
      moreover from that(1) assms(4) have "fst row < Sentence_id_seq w"
        by (auto simp: keys_ok_def list_all_iff)
      ultimately show False by simp
    qed
  qed
  have "filter (\<lambda>m. Mention_doc m = Document_id self) (Mention_table w') = []"
    using Mention_filter_doc_after_delete[of self w]
    by (simp add: w' Mention_filter_doc_def other_tables_after_insert)
  then have none: "Mention_doc m \<noteq> Document_id self" if "m \<in> set (Mention_table w')" for m
    using that by (auto simp: filter_empty_conv)
  have mgone: "m \<notin> set (Mention_table w')"
    if "m \<in> set (Mention_table w)" "Mention_doc m = Document_id self" for m
    using none[of m] that(2) by blast
  have calls: "CoreNLP_calls w' = CoreNLP_calls w @ [(Document_gloss self, kwargs)]"
    by (simp add: w' other_tables_after_insert CoreNLP_calls_after_delete)
  show ?thesis
    using rows gone none mgone calls by (simp add: new_Sentence_def[abs_def])
qed

theorem annotate_force_replaces_witness:
  "filter (\<lambda>row. Sentence_doc (snd row) = Document_id doc_obama) (Sentence_table world_crossed) \<noteq> [] \<and>
   annotate (env_answers answer_obama) doc_obama True [] world_crossed =
     (Inr (), after_insert doc_obama [] answer_obama (after_delete doc_obama world_crossed)) \<and>
   service (env_answers answer_obama) (Document_gloss doc_obama) [] = Inr answer_obama \<and>
   keys_ok world_crossed \<and>
   map (\<lambda>row. (fst row, Sentence_sentence_index (snd row), Sentence_gloss (snd row),
               Sentence_words (snd row), Sentence_doc_char_begin (snd row),
               Sentence_doc_char_end (snd row)))
     (filter (\<lambda>row. Sentence_doc (snd row) = Document_id doc_obama)
        (Sentence_table
           (after_insert doc_obama [] answer_obama (after_delete doc_obama world_crossed)))) =
     [(3, 0, ''Obama was president.'', [''Obama'', ''was'', ''president'', ''.''],
       [0, 6, 10, 19], [5, 9, 19, 20]),
      (4, 1, ''He visited Paris.'', [''He'', ''visited'', ''Paris'', ''.''],
       [21, 24, 32, 37], [23, 31, 37, 38])] \<and>
   (1, old_Sentence ''d1'') \<in> set (Sentence_table world_crossed) \<and>
   (1, old_Sentence ''d1'') \<notin> set (Sentence_table
     (after_insert doc_obama [] answer_obama (after_delete doc_obama world_crossed))) \<and>
   old_Mention 7 ''d1'' 1 \<in> set (Mention_table world_crossed) \<and>
   old_Mention 7 ''d1'' 1 \<notin> set (Mention_table
     (after_insert doc_obama [] answer_obama (after_delete doc_obama world_crossed))) \<and>
   old_Mention 9 ''d1'' 2 \<in> set (Mention_table world_crossed) \<and>
   Mention_sentence (old_Mention 9 ''d1'' 2) \<notin> set (own_Sentence_keys doc_obama world_crossed) \<and>
   old_Mention 9 ''d1'' 2 \<notin> set (Mention_table
     (after_insert doc_obama [] answer_obama (after_delete doc_obama world_crossed)))"
proof -
  define W where "W = after_insert doc_obama [] answer_obama (after_delete doc_obama world_crossed)"
  have has: "filter (\<lambda>row. Sentence_doc (snd row) = Document_id doc_obama)
               (Sentence_table world_crossed) \<noteq> []"
    by code_simp
  note th = annotate_force_replaces[OF has annotate_crossed_example service_env_answers
      keys_ok_world_crossed, folded W_def]
  have seq: "Sentence_id_seq world_crossed = 3"
    "sentences answer_obama = [sentence_obama, sentence_paris]"
    by (simp_all add: world_crossed_def answer_obama_def)
  have upt: "[3..<5] = [3, 4::nat]" by code_simp
  from th have "filter (\<lambda>row. Sentence_doc (snd row) = Document_id doc_obama) (Sentence_table W) =
      [(3, new_Sentence doc_obama sentence_obama), (4, new_Sentence doc_obama sentence_paris)]"
    by (simp add: seq upt new_Sentence_def)
  then have rows: "map (\<lambda>row. (fst row, Sentence_sentence_index (snd row), Sentence_gloss (snd row),
               Sentence_words (snd row), Sentence_doc_char_begin (snd row),
               Sentence_doc_char_end (snd row)))
     (filter (\<lambda>row. Sentence_doc (snd row) = Document_id doc_obama) (Sentence_table W)) =
     [(3, 0, ''Obama was president.'', [''Obama'', ''was'', ''president'', ''.''],
       [0, 6, 10, 19], [5, 9, 19, 20]),
      (4, 1, ''He visited Paris.'', [''He'', ''visited'', ''Paris'', ''.''],
       [21, 24, 32, 37], [23, 31, 37, 38])]"
    by (simp add: new_Sentence_def sentence_obama_def sentence_paris_def)
  have mem: "(1, old_Sentence ''d1'') \<in> set (Sentence_table world_crossed)"
    "Sentence_doc (snd (1::nat, old_Sentence ''d1'')) = Document_id doc_obama"
    "old_Mention 7 ''d1'' 1 \<in> set (Mention_table world_crossed)"
    "Mention_doc (old_Mention 7 ''d1'' 1) = Document_id doc_obama"
    "old_Mention 9 ''d1'' 2 \<in> set (Mention_table world_crossed)"
    "Mention_doc (old_Mention 9 ''d1'' 2) = Document_id doc_obama"
    "Mention_sentence (old_Mention 9 ''d1'' 2) \<notin> set (own_Sentence_keys doc_obama world_crossed)"
    by code_simp+
  from th mem have gone: "(1, old_Sentence ''d1'') \<notin> set (Sentence_table W)"
    "old_Mention 7 ''d1'' 1 \<notin> set (Mention_table W)"
    "old_Mention 9 ''d1'' 2 \<notin> set (Mention_table W)"
    by blast+
  show ?thesis
    using has annotate_crossed_example service_env_answers[of answer_obama]
      keys_ok_world_crossed rows mem gone
    unfolding W_def by simp
qed

text \<open>
  C4. A call that returns and reached the recompute step (the document had no Sentence, or
  \<^verbatim>\<open>force\<close> was given) builds exactly one Sentence per sentence of the answer of the
  service, in the order of the answer: \<^verbatim>\<open>corpus_id\<close> is copied from the document,
  \<^verbatim>\<open>doc\<close> is the document, \<^verbatim>\<open>sentence_index\<close>, \<^verbatim>\<open>words\<close>, \<^verbatim>\<open>lemmas\<close>, \<^verbatim>\<open>pos_tags\<close>,
  \<^verbatim>\<open>ner_tags\<close> and \<^verbatim>\<open>dependencies\<close> are taken from the result, \<^verbatim>\<open>doc_char_begin\<close> and
  \<^verbatim>\<open>doc_char_end\<close> are the first and the second components of the character spans of
  its tokens, and \<^verbatim>\<open>gloss\<close> is its cleaned text (the raw text is not read).
\<close>

theorem annotate_builds_one_Sentence_per_result:
  assumes "annotate e self force kwargs w = (Inr (), w')"
    and "\<not> (Sentence_filter_doc self w \<noteq> [] \<and> \<not> force)"
    and "service e (Document_gloss self) kwargs = Inr ad"
  shows "length (Sentence_filter_doc self w') = length (sentences ad) \<and>
         map snd (Sentence_filter_doc self w') =
           map (\<lambda>s. \<lparr>Sentence_corpus_id = Document_corpus_id self,
                      Sentence_doc = Document_id self,
                      Sentence_sentence_index = sentence_index s,
                      Sentence_words = words s,
                      Sentence_lemmas = lemmas' s,
                      Sentence_pos_tags = pos_tags s,
                      Sentence_ner_tags = ner_tags s,
                      Sentence_doc_char_begin = map (\<lambda>t. fst (character_span t)) (tokens s),
                      Sentence_doc_char_end = map (\<lambda>t. snd (character_span t)) (tokens s),
                      Sentence_dependencies = depparse s,
                      Sentence_gloss = clean_text s,
                      Sentence_searchable = []\<rparr>) (sentences ad)"
proof -
  have rows: "Sentence_filter_doc self w' =
           zip [Sentence_id_seq w ..< Sentence_id_seq w + length (sentences ad)]
             (map (new_Sentence self) (sentences ad))"
    using assms by (rule annotate_recomputed_rows)
  have "map snd (Sentence_filter_doc self w') = map (new_Sentence self) (sentences ad)"
    unfolding rows using map_snd_zip_upt[of "Sentence_id_seq w" "map (new_Sentence self) (sentences ad)"]
    by simp
  moreover have "length (Sentence_filter_doc self w') = length (sentences ad)"
    unfolding rows by simp
  ultimately show ?thesis
    by (simp add: new_Sentence_def[abs_def])
qed

theorem annotate_builds_one_Sentence_per_result_witness:
  "annotate (env_answers answer_obama) doc_obama False [] world_fresh =
     (Inr (), after_insert doc_obama [] answer_obama world_fresh) \<and>
   Sentence_filter_doc doc_obama world_fresh = [] \<and>
   service (env_answers answer_obama) (Document_gloss doc_obama) [] = Inr answer_obama \<and>
   length (Sentence_filter_doc doc_obama (after_insert doc_obama [] answer_obama world_fresh)) = 2 \<and>
   map (Sentence_gloss \<circ> snd)
     (Sentence_filter_doc doc_obama (after_insert doc_obama [] answer_obama world_fresh)) =
     [''Obama was president.'', ''He visited Paris.''] \<and>
   map (Sentence_doc_char_begin \<circ> snd)
     (Sentence_filter_doc doc_obama (after_insert doc_obama [] answer_obama world_fresh)) =
     [[0, 6, 10, 19], [21, 24, 32, 37]] \<and>
   map (Sentence_doc_char_end \<circ> snd)
     (Sentence_filter_doc doc_obama (after_insert doc_obama [] answer_obama world_fresh)) =
     [[5, 9, 19, 20], [23, 31, 37, 38]]"
proof -
  define R where "R = Sentence_filter_doc doc_obama (after_insert doc_obama [] answer_obama world_fresh)"
  have hyp: "\<not> (Sentence_filter_doc doc_obama world_fresh \<noteq> [] \<and> \<not> False)"
    by (simp add: world_fresh_has_no_Sentences)
  note th = annotate_builds_one_Sentence_per_result[OF annotate_fresh_example hyp
      service_env_answers, of answer_obama, folded R_def]
  from th have len: "length R = 2"
    by (simp add: answer_obama_def)
  from th have rows: "map snd R = map (new_Sentence doc_obama) [sentence_obama, sentence_paris]"
    by (simp add: answer_obama_def new_Sentence_def)
  have "map (Sentence_gloss \<circ> snd) R = map Sentence_gloss (map snd R)" by simp
  then have gloss: "map (Sentence_gloss \<circ> snd) R = [''Obama was president.'', ''He visited Paris.'']"
    unfolding rows by (simp add: new_Sentence_def sentence_obama_def sentence_paris_def)
  have "map (Sentence_doc_char_begin \<circ> snd) R = map Sentence_doc_char_begin (map snd R)" by simp
  then have b: "map (Sentence_doc_char_begin \<circ> snd) R = [[0, 6, 10, 19], [21, 24, 32, 37]]"
    unfolding rows by (simp add: new_Sentence_def sentence_obama_def sentence_paris_def)
  have "map (Sentence_doc_char_end \<circ> snd) R = map Sentence_doc_char_end (map snd R)" by simp
  then have e: "map (Sentence_doc_char_end \<circ> snd) R = [[5, 9, 19, 20], [23, 31, 37, 38]]"
    unfolding rows by (simp add: new_Sentence_def sentence_obama_def sentence_paris_def)
  show ?thesis
    using len gloss b e annotate_fresh_example[of answer_obama] world_fresh_has_no_Sentences
      service_env_answers[of answer_obama]
    unfolding R_def by simp
qed

text \<open>
  C5 (as amended). For every Sentence persisted by a call that returns, \<^verbatim>\<open>doc_char_begin\<close>
  and \<^verbatim>\<open>doc_char_end\<close> have the same length, the number of tokens of the result; and when
  every sentence of the answer of the service has as many words, lemmas, POS tags and NER
  tags as tokens, the six token-parallel fields of the Sentence have equal length.
\<close>

theorem persisted_Sentence_lengths:
  assumes "annotate e self force kwargs w = (Inr (), w')"
    and "\<not> (Sentence_filter_doc self w \<noteq> [] \<and> \<not> force)"
    and "service e (Document_gloss self) kwargs = Inr ad"
    and "row \<in> set (Sentence_filter_doc self w')"
  shows "length (Sentence_doc_char_begin (snd row)) = length (Sentence_doc_char_end (snd row)) \<and>
         ((\<forall>s \<in> set (sentences ad).
              length (words s) = length (tokens s) \<and> length (lemmas' s) = length (tokens s) \<and>
              length (pos_tags s) = length (tokens s) \<and> length (ner_tags s) = length (tokens s)) \<longrightarrow>
          length (Sentence_words (snd row)) = length (Sentence_lemmas (snd row)) \<and>
          length (Sentence_lemmas (snd row)) = length (Sentence_pos_tags (snd row)) \<and>
          length (Sentence_pos_tags (snd row)) = length (Sentence_ner_tags (snd row)) \<and>
          length (Sentence_ner_tags (snd row)) = length (Sentence_doc_char_begin (snd row)) \<and>
          length (Sentence_doc_char_begin (snd row)) = length (Sentence_doc_char_end (snd row)))"
proof -
  have "Sentence_filter_doc self w' =
           zip [Sentence_id_seq w ..< Sentence_id_seq w + length (sentences ad)]
             (map (new_Sentence self) (sentences ad))"
    using assms(1-3) by (rule annotate_recomputed_rows)
  with assms(4) obtain s where s: "s \<in> set (sentences ad)" "snd row = new_Sentence self s"
    using in_zip_upt_map[where row = row and a = "Sentence_id_seq w" and f = "new_Sentence self"
        and ys = "sentences ad"] by auto
  show ?thesis
    using s(1) by (auto simp: s(2) new_Sentence_def)
qed

theorem persisted_Sentence_lengths_witness:
  "annotate (env_answers answer_obama) doc_obama False [] world_fresh =
     (Inr (), after_insert doc_obama [] answer_obama world_fresh) \<and>
   Sentence_filter_doc doc_obama world_fresh = [] \<and>
   service (env_answers answer_obama) (Document_gloss doc_obama) [] = Inr answer_obama \<and>
   (1, new_Sentence doc_obama sentence_obama) \<in>
     set (Sentence_filter_doc doc_obama (after_insert doc_obama [] answer_obama world_fresh)) \<and>
   length (Sentence_words (new_Sentence doc_obama sentence_obama)) =
     length (Sentence_lemmas (new_Sentence doc_obama sentence_obama)) \<and>
   length (Sentence_lemmas (new_Sentence doc_obama sentence_obama)) =
     length (Sentence_pos_tags (new_Sentence doc_obama sentence_obama)) \<and>
   length (Sentence_pos_tags (new_Sentence doc_obama sentence_obama)) =
     length (Sentence_ner_tags (new_Sentence doc_obama sentence_obama)) \<and>
   length (Sentence_ner_tags (new_Sentence doc_obama sentence_obama)) =
     length (Sentence_doc_char_begin (new_Sentence doc_obama sentence_obama)) \<and>
   length (Sentence_doc_char_begin (new_Sentence doc_obama sentence_obama)) =
     length (Sentence_doc_char_end (new_Sentence doc_obama sentence_obama))"
proof -
  have hyp: "\<not> (Sentence_filter_doc doc_obama world_fresh \<noteq> [] \<and> \<not> False)"
    by (simp add: world_fresh_has_no_Sentences)
  have upt: "[1..<3] = [1, 2::nat]" by code_simp
  have mem: "(1, new_Sentence doc_obama sentence_obama) \<in>
     set (Sentence_filter_doc doc_obama (after_insert doc_obama [] answer_obama world_fresh))"
    by (simp add: rows_fresh_example answer_obama_def upt)
  show ?thesis
    using persisted_Sentence_lengths[OF annotate_fresh_example hyp service_env_answers mem]
      answer_obama_even annotate_fresh_example[of answer_obama] world_fresh_has_no_Sentences
      service_env_answers[of answer_obama] mem
    by simp
qed

text \<open>
  The claim as stated fails on an answer whose sentence has four words and no token:
  \<^verbatim>\<open>annotate\<close> copies \<^verbatim>\<open>words\<close> and builds the offsets from \<^verbatim>\<open>tokens\<close>, and compares no
  lengths.
\<close>

theorem uneven_answer_counterexample:
  "fst (annotate (env_answers answer_uneven) doc_obama False [] world_fresh) = Inr () \<and>
   map (\<lambda>row. (length (Sentence_words (snd row)), length (Sentence_doc_char_begin (snd row))))
     (Sentence_table (snd (annotate (env_answers answer_uneven) doc_obama False [] world_fresh))) =
     [(4, 0)]"
  by code_simp

text \<open>
  C6 (as amended). After a call that returns and recomputed, the Sentences of the document
  sorted by \<^verbatim>\<open>sentence_index\<close> are in the order of the answer of the service, provided
  the indices of the answer are in order along it: a stable sort gives back the order of
  the answer when the indices do not decrease, and when they increase strictly every
  arrangement of the rows that is sorted by \<^verbatim>\<open>sentence_index\<close> is the order of the answer.
\<close>

theorem Sentences_sorted_by_index_follow_answer:
  assumes "annotate e self force kwargs w = (Inr (), w')"
    and "\<not> (Sentence_filter_doc self w \<noteq> [] \<and> \<not> force)"
    and "service e (Document_gloss self) kwargs = Inr ad"
  shows "(sorted (map sentence_index (sentences ad)) \<longrightarrow>
            map snd (sort_key (\<lambda>row. Sentence_sentence_index (snd row))
                       (Sentence_filter_doc self w')) =
              map (new_Sentence self) (sentences ad)) \<and>
         (sorted_wrt (<) (map sentence_index (sentences ad)) \<and>
          mset rows = mset (Sentence_filter_doc self w') \<and>
          sorted (map (\<lambda>row. Sentence_sentence_index (snd row)) rows) \<longrightarrow>
            map snd rows = map (new_Sentence self) (sentences ad))"
proof -
  define xs where "xs = zip [Sentence_id_seq w ..< Sentence_id_seq w + length (sentences ad)]
             (map (new_Sentence self) (sentences ad))"
  have rows: "Sentence_filter_doc self w' = xs"
    unfolding xs_def using assms by (rule annotate_recomputed_rows)
  have keys: "map (\<lambda>row. Sentence_sentence_index (snd row)) xs = map sentence_index (sentences ad)"
    unfolding xs_def by (rule keys_of_zip_upt_map)
  have vals: "map snd xs = map (new_Sentence self) (sentences ad)"
    unfolding xs_def
    using map_snd_zip_upt[of "Sentence_id_seq w" "map (new_Sentence self) (sentences ad)"] by simp
  have 1: "map snd (sort_key (\<lambda>row. Sentence_sentence_index (snd row)) xs) =
             map (new_Sentence self) (sentences ad)"
    if "sorted (map sentence_index (sentences ad))"
  proof -
    from that have "sorted (map (\<lambda>row. Sentence_sentence_index (snd row)) xs)"
      by (simp only: keys)
    then have "sort_key (\<lambda>row. Sentence_sentence_index (snd row)) xs = xs"
      by (rule sort_key_id_if_sorted)
    then show ?thesis by (simp only: vals)
  qed
  have 2: "map snd rows = map (new_Sentence self) (sentences ad)"
    if "sorted_wrt (<) (map sentence_index (sentences ad))" and "mset rows = mset xs"
      and "sorted (map (\<lambda>row. Sentence_sentence_index (snd row)) rows)"
  proof -
    from that(1) have "sorted_wrt (<) (map (\<lambda>row. Sentence_sentence_index (snd row)) xs)"
      by (simp only: keys)
    then have "rows = xs" using that(2,3) by (rule sorted_arrangement_unique)
    then show ?thesis by (simp only: vals)
  qed
  show ?thesis using 1 2 by (simp add: rows)
qed

theorem Sentences_sorted_by_index_follow_answer_witness:
  "annotate (env_answers answer_obama) doc_obama False [] world_fresh =
     (Inr (), after_insert doc_obama [] answer_obama world_fresh) \<and>
   Sentence_filter_doc doc_obama world_fresh = [] \<and>
   service (env_answers answer_obama) (Document_gloss doc_obama) [] = Inr answer_obama \<and>
   sorted (map sentence_index (sentences answer_obama)) \<and>
   sorted_wrt (<) (map sentence_index (sentences answer_obama)) \<and>
   mset (rev (Sentence_filter_doc doc_obama (after_insert doc_obama [] answer_obama world_fresh))) =
     mset (Sentence_filter_doc doc_obama (after_insert doc_obama [] answer_obama world_fresh)) \<and>
   map snd (sort_key (\<lambda>row. Sentence_sentence_index (snd row))
     (rev (Sentence_filter_doc doc_obama (after_insert doc_obama [] answer_obama world_fresh)))) =
     map (new_Sentence doc_obama) (sentences answer_obama) \<and>
   map snd (sort_key (\<lambda>row. Sentence_sentence_index (snd row))
     (Sentence_filter_doc doc_obama (after_insert doc_obama [] answer_obama world_fresh))) =
     map (new_Sentence doc_obama) (sentences answer_obama)"
proof -
  define R where "R = Sentence_filter_doc doc_obama (after_insert doc_obama [] answer_obama world_fresh)"
  have hyp: "\<not> (Sentence_filter_doc doc_obama world_fresh \<noteq> [] \<and> \<not> False)"
    by (simp add: world_fresh_has_no_Sentences)
  have inc: "sorted (map sentence_index (sentences answer_obama))"
    using answer_obama_increasing by (simp add: strict_sorted_iff)
  have perm: "mset (sort_key (\<lambda>row. Sentence_sentence_index (snd row)) (rev R)) = mset R"
    by simp
  have srt: "sorted (map (\<lambda>row. Sentence_sentence_index (snd row))
                (sort_key (\<lambda>row. Sentence_sentence_index (snd row)) (rev R)))"
    by simp
  note th = Sentences_sorted_by_index_follow_answer[OF annotate_fresh_example hyp
      service_env_answers, of answer_obama, folded R_def]
  from th[of "sort_key (\<lambda>row. Sentence_sentence_index (snd row)) (rev R)"] perm srt
    answer_obama_increasing inc
  have "map snd (sort_key (\<lambda>row. Sentence_sentence_index (snd row)) (rev R)) =
          map (new_Sentence doc_obama) (sentences answer_obama)"
    and "map snd (sort_key (\<lambda>row. Sentence_sentence_index (snd row)) R) =
          map (new_Sentence doc_obama) (sentences answer_obama)"
    by blast+
  then show ?thesis
    using inc answer_obama_increasing annotate_fresh_example[of answer_obama]
      world_fresh_has_no_Sentences service_env_answers[of answer_obama]
    unfolding R_def by simp
qed

text \<open>
  The claim as stated fails on an answer that lists the sentence of index 1 before the
  sentence of index 0: \<^verbatim>\<open>annotate\<close> stores the index the service gives, not the position.
\<close>

theorem unordered_answer_counterexample:
  "fst (annotate (env_answers answer_unordered) doc_obama False [] world_fresh) = Inr () \<and>
   map (\<lambda>row. Sentence_gloss (snd row))
     (sort_key (\<lambda>row. Sentence_sentence_index (snd row))
        (Sentence_filter_doc doc_obama
           (snd (annotate (env_answers answer_unordered) doc_obama False [] world_fresh)))) \<noteq>
     map clean_text (sentences answer_unordered)"
  by code_simp

text \<open>
  C7. No call of \<^verbatim>\<open>annotate\<close> creates a Mention row: whatever the document, the \<^verbatim>\<open>force\<close>
  flag and the answer of the service, the Mention table after the call is the one before
  it with rows left out at most, and the statement that would create Mentions is a bulk
  insert of the empty list, which does nothing. In the example scenario (two sentences in
  the answer) the call leaves exactly two Sentence rows, of \<^verbatim>\<open>sentence_index\<close> 0 and 1
  and with the cleaned text of each sentence as \<^verbatim>\<open>gloss\<close>, and no Mention row.
\<close>

theorem annotate_creates_no_Mention:
  "subseq (Mention_table (snd (annotate e self force kwargs w))) (Mention_table w) \<and>
   Mention_bulk_create e [] w = (Inr (), w) \<and>
   fst (annotate (env_answers answer_obama) doc_obama False [] world_fresh) = Inr () \<and>
   map (\<lambda>row. (Sentence_sentence_index (snd row), Sentence_gloss (snd row)))
     (Sentence_table (snd (annotate (env_answers answer_obama) doc_obama False [] world_fresh))) =
     [(0, ''Obama was president.''), (1, ''He visited Paris.'')] \<and>
   Mention_table (snd (annotate (env_answers answer_obama) doc_obama False [] world_fresh)) = []"
proof -
  have "subseq (Mention_table (snd (annotate e self force kwargs w))) (Mention_table w)"
  proof (cases rule: annotate_result_cases[of e self force kwargs w])
    case (failed err)
    from annotate_Inl_tables(3)[OF this] show ?thesis by simp
  next
    case idle
    then show ?thesis by simp
  next
    case (recomputed ad)
    then show ?thesis
      by (simp add: other_tables_after_insert subseq_Mention_table_after_delete)
  qed
  moreover have "fst (annotate (env_answers answer_obama) doc_obama False [] world_fresh) = Inr () \<and>
   map (\<lambda>row. (Sentence_sentence_index (snd row), Sentence_gloss (snd row)))
     (Sentence_table (snd (annotate (env_answers answer_obama) doc_obama False [] world_fresh))) =
     [(0, ''Obama was president.''), (1, ''He visited Paris.'')] \<and>
   Mention_table (snd (annotate (env_answers answer_obama) doc_obama False [] world_fresh)) = []"
    by code_simp
  ultimately show ?thesis by (simp add: Mention_bulk_create_Nil)
qed

text \<open>
  C9. \<^verbatim>\<open>annotate\<close> has no guard on the gloss: on a document whose gloss is empty, a call
  that meets no database fault and is not cut short by existing Sentences sends the
  empty text to the service like any other, and raises only if the service does, with
  the error of the service.
\<close>

theorem annotate_passes_empty_gloss:
  assumes "\<forall>op. db_fault e op = None"
    and "\<not> (Sentence_filter_doc self w \<noteq> [] \<and> \<not> force)"
    and "Document_gloss self = []"
  shows "CoreNLP_calls (snd (annotate e self force kwargs w)) = CoreNLP_calls w @ [([], kwargs)] \<and>
         fst (annotate e self force kwargs w) =
           (case service e [] kwargs of Inl err \<Rightarrow> Inl err | Inr ad \<Rightarrow> Inr ())"
proof (cases "service e [] kwargs")
  case (Inr ad)
  from assms(1) have nf: "db_fault e op = None" for op by simp
  from Inr assms(3) have "service e (Document_gloss self) kwargs = Inr ad" by simp
  from annotate_run[OF nf this assms(2)] Inr assms(3) show ?thesis
    by (simp add: other_tables_after_insert CoreNLP_calls_after_delete)
next
  case (Inl err)
  from assms(1) have nf: "db_fault e op = None" for op by simp
  define w0 where
    "w0 = (if Sentence_filter_doc self w \<noteq> [] \<and> force then after_delete self w else w)"
  have calls: "CoreNLP_calls w0 = CoreNLP_calls w"
    by (simp add: w0_def CoreNLP_calls_after_delete)
  have blk: "annotate_block e self force kwargs w =
      (Inl err, w0\<lparr>CoreNLP_calls := CoreNLP_calls w0 @ [([], kwargs)]\<rparr>)"
    using Inl assms(3) unfolding w0_def
    by (simp add: annotate_block_def and_then_def Sentence_exists_def Sentence_delete_def
        Mention_delete_def pure_def CoreNLPService_annotate_def nf after_delete_def Let_def)
  have "annotate e self force kwargs w = atomic e (annotate_block e self force kwargs) w"
    using assms(2) by (auto simp: annotate_unfold nf)
  then show ?thesis
    using Inl by (simp add: atomic_def blk rollback_def calls)
qed

theorem annotate_passes_empty_gloss_witness:
  "(\<forall>op. db_fault (env_answers answer_empty) op = None) \<and>
   Sentence_filter_doc (doc_obama\<lparr>Document_gloss := []\<rparr>) world_fresh = [] \<and>
   Document_gloss (doc_obama\<lparr>Document_gloss := []\<rparr>) = [] \<and>
   CoreNLP_calls (snd (annotate (env_answers answer_empty) (doc_obama\<lparr>Document_gloss := []\<rparr>)
       False [] world_fresh)) = [([], [])] \<and>
   fst (annotate (env_answers answer_empty) (doc_obama\<lparr>Document_gloss := []\<rparr>) False []
       world_fresh) = Inr () \<and>
   (\<forall>op. db_fault env_down op = None) \<and>
   fst (annotate env_down (doc_obama\<lparr>Document_gloss := []\<rparr>) False [] world_fresh) =
     Inl (ServiceError ''unavailable'')"
proof -
  have nf: "\<forall>op. db_fault (env_answers answer_empty) op = None" "\<forall>op. db_fault env_down op = None"
    by (simp_all add: env_answers_def env_down_def no_fault_def)
  have none: "Sentence_filter_doc (doc_obama\<lparr>Document_gloss := []\<rparr>) world_fresh = []"
    by (simp add: Sentence_filter_doc_def world_fresh_def)
  then have hyp: "\<not> (Sentence_filter_doc (doc_obama\<lparr>Document_gloss := []\<rparr>) world_fresh \<noteq> [] \<and> \<not> False)"
    by simp
  have g: "Document_gloss (doc_obama\<lparr>Document_gloss := []\<rparr>) = []" by simp
  have c: "CoreNLP_calls world_fresh = []" by (simp add: world_fresh_def)
  show ?thesis
    using annotate_passes_empty_gloss[OF nf(1) hyp g, of "[]"]
      annotate_passes_empty_gloss[OF nf(2) hyp g, of "[]"] nf none
    by (simp add: c service_env_answers env_down_def)
qed

text \<open>
  C10 (as amended). \<^verbatim>\<open>annotate\<close> on one document changes no Sentence row of another
  document and creates no Mention and no Relation row. Its deletes cascade along the
  foreign keys: a forced call that returns, on a document that has Sentences, leaves of
  the Mention table exactly the rows of other documents that sit on a Sentence that is
  not the receiver's, and of the Relation table exactly the rows whose \<^verbatim>\<open>sentence\<close> is not
  a Sentence of the receiver and whose \<^verbatim>\<open>entity\<close> and \<^verbatim>\<open>slot_value\<close> are not among the
  deleted Mentions. So it deletes, beyond the Sentences and Mentions of the receiver,
  the Mentions of other documents on the receiver's Sentences and the Relations that
  refer to a deleted Sentence or Mention. Every other call (not forced, on a document
  without Sentences, or failing) leaves the Mention and the Relation table as they were.
\<close>

theorem annotate_leaves_other_rows:
  assumes "keys_ok w"
  shows "filter (\<lambda>row. Sentence_doc (snd row) \<noteq> Document_id self)
           (Sentence_table (snd (annotate e self force kwargs w))) =
         filter (\<lambda>row. Sentence_doc (snd row) \<noteq> Document_id self) (Sentence_table w) \<and>
         (if fst (annotate e self force kwargs w) = Inr () \<and> force \<and> own_Sentence_keys self w \<noteq> []
          then Mention_table (snd (annotate e self force kwargs w)) =
                 filter (\<lambda>m. Mention_doc m \<noteq> Document_id self
                            \<and> Mention_sentence m \<notin> set (own_Sentence_keys self w))
                   (Mention_table w) \<and>
               Relation_table (snd (annotate e self force kwargs w)) =
                 filter (\<lambda>r. Relation_sentence r \<notin> set (own_Sentence_keys self w)
                            \<and> Relation_entity r \<notin> Some ` set (own_Mention_keys self w)
                            \<and> Relation_slot_value r \<notin> Some ` set (own_Mention_keys self w))
                   (Relation_table w)
          else Mention_table (snd (annotate e self force kwargs w)) = Mention_table w \<and>
               Relation_table (snd (annotate e self force kwargs w)) = Relation_table w)"
proof (cases "annotate e self force kwargs w")
  case (Pair r w')
  have own: "own_Sentence_keys self w \<noteq> [] \<longleftrightarrow> Sentence_filter_doc self w \<noteq> []"
    by (simp add: own_Sentence_keys_filter_doc)
  show ?thesis
  proof (cases r)
    case (Inl err)
    with Pair have "fst (annotate e self force kwargs w) = Inl err" by simp
    from annotate_Inl_tables(2-4)[OF this] this show ?thesis by simp
  next
    case (Inr u)
    with Pair have run: "annotate e self force kwargs w = (Inr (), w')" by simp
    then have res: "snd (annotate e self force kwargs w) = w'"
      "fst (annotate e self force kwargs w) = Inr ()"
      by simp_all
    from annotate_InrD[OF run]
    consider (idle) "Sentence_filter_doc self w \<noteq> []" "\<not> force" "w' = w"
      | (recomputed) ad where "\<not> (Sentence_filter_doc self w \<noteq> [] \<and> \<not> force)"
          "w' = after_insert self kwargs ad
             (if Sentence_filter_doc self w \<noteq> [] \<and> force then after_delete self w else w)"
      by blast
    then show ?thesis
    proof cases
      case idle
      then show ?thesis unfolding res by (simp add: own)
    next
      case (recomputed ad)
      show ?thesis
      proof (cases "Sentence_filter_doc self w \<noteq> [] \<and> force")
        case True
        with recomputed(2) have "w' = after_insert self kwargs ad (after_delete self w)" by simp
        with True show ?thesis
          unfolding res
          by (simp add: own other_Sentences_after_insert other_tables_after_insert
              other_Sentences_after_delete[OF assms] Mentions_after_delete[OF assms]
              Relations_after_delete)
      next
        case False
        with recomputed(2) have "w' = after_insert self kwargs ad w" by simp
        with False show ?thesis
          unfolding res
          by (auto simp: own other_Sentences_after_insert other_tables_after_insert)
      qed
    qed
  qed
qed

theorem annotate_leaves_other_rows_witness:
  "keys_ok world_crossed \<and>
   fst (annotate (env_answers answer_obama) doc_obama True [] world_crossed) = Inr () \<and>
   own_Sentence_keys doc_obama world_crossed = [1] \<and>
   own_Mention_keys doc_obama world_crossed = [7, 9, 10] \<and>
   filter (\<lambda>row. Sentence_doc (snd row) \<noteq> Document_id doc_obama)
     (Sentence_table (snd (annotate (env_answers answer_obama) doc_obama True [] world_crossed))) =
     [(2, old_Sentence ''d2'')] \<and>
   Mention_table (snd (annotate (env_answers answer_obama) doc_obama True [] world_crossed)) =
     [old_Mention 8 ''d2'' 2] \<and>
   Relation_table (snd (annotate (env_answers answer_obama) doc_obama True [] world_crossed)) =
     [old_Relation 4 2 8] \<and>
   keys_ok world_annotated \<and>
   Mention_table (snd (annotate (env_answers answer_obama) doc_obama False [] world_annotated)) =
     Mention_table world_annotated \<and>
   Relation_table (snd (annotate (env_answers answer_obama) doc_obama False [] world_annotated)) =
     Relation_table world_annotated"
proof -
  have ok: "fst (annotate (env_answers answer_obama) doc_obama True [] world_crossed) = Inr ()"
    by (simp add: annotate_crossed_example)
  have 1: "filter (\<lambda>row. Sentence_doc (snd row) \<noteq> Document_id doc_obama)
             (Sentence_table world_crossed) = [(2, old_Sentence ''d2'')]"
    by code_simp
  have 2: "filter (\<lambda>m. Mention_doc m \<noteq> Document_id doc_obama \<and> Mention_sentence m \<notin> set [1])
             (Mention_table world_crossed) = [old_Mention 8 ''d2'' 2]"
    by code_simp
  have 3: "filter (\<lambda>r. Relation_sentence r \<notin> set [1] \<and> Relation_entity r \<notin> Some ` set [7, 9, 10]
              \<and> Relation_slot_value r \<notin> Some ` set [7, 9, 10])
             (Relation_table world_crossed) = [old_Relation 4 2 8]"
    by code_simp
  note th = annotate_leaves_other_rows[OF keys_ok_world_crossed,
      of doc_obama "env_answers answer_obama" True "[]"]
  from th ok have a: "filter (\<lambda>row. Sentence_doc (snd row) \<noteq> Document_id doc_obama)
     (Sentence_table (snd (annotate (env_answers answer_obama) doc_obama True [] world_crossed))) =
     [(2, old_Sentence ''d2'')]"
    and b: "Mention_table (snd (annotate (env_answers answer_obama) doc_obama True [] world_crossed)) =
     [old_Mention 8 ''d2'' 2]"
    and c: "Relation_table (snd (annotate (env_answers answer_obama) doc_obama True [] world_crossed)) =
     [old_Relation 4 2 8]"
    unfolding own_keys_world_crossed 1 2 3 by simp_all
  note th2 = annotate_leaves_other_rows[OF keys_ok_world_annotated,
      of doc_obama "env_answers answer_obama" False "[]"]
  from th2 have d: "Mention_table (snd (annotate (env_answers answer_obama) doc_obama False [] world_annotated)) =
     Mention_table world_annotated"
    and e: "Relation_table (snd (annotate (env_answers answer_obama) doc_obama False [] world_annotated)) =
     Relation_table world_annotated"
    by simp_all
  show ?thesis
    using a b c d e ok keys_ok_world_crossed keys_ok_world_annotated own_keys_world_crossed
    by simp
qed

text \<open>
  The claim as stated fails for Mention and Relation rows. In the first state a forced
  call on the first document deletes Relation 3, on its Sentence. In the second state
  it deletes Mention 10, a Mention of the second document, and the Relations 3, 5 and 6:
  Relation 3 is on the deleted Sentence and names a Mention that stays, Relation 5 is on
  the Sentence of the second document and names Mention 10.
\<close>

theorem forced_annotate_deletes_Relation_counterexample:
  "fst (annotate (env_answers answer_obama) doc_obama True [] world_annotated) = Inr () \<and>
   Relation_table world_annotated = [old_Relation 3 1 7, old_Relation 4 2 8] \<and>
   Relation_table (snd (annotate (env_answers answer_obama) doc_obama True [] world_annotated)) =
     [old_Relation 4 2 8] \<and>
   fst (annotate (env_answers answer_obama) doc_obama True [] world_crossed) = Inr () \<and>
   Mention_doc (old_Mention 10 ''d2'' 1) \<noteq> Document_id doc_obama \<and>
   old_Mention 10 ''d2'' 1 \<in> set (Mention_table world_crossed) \<and>
   old_Mention 10 ''d2'' 1 \<notin> set (Mention_table
     (snd (annotate (env_answers answer_obama) doc_obama True [] world_crossed))) \<and>
   Relation_table world_crossed =
     [old_Relation 3 1 8, old_Relation 4 2 8, old_Relation 5 2 10, old_Relation 6 2 9] \<and>
   Relation_table (snd (annotate (env_answers answer_obama) doc_obama True [] world_crossed)) =
     [old_Relation 4 2 8]"
  by code_simp

end
